theory Spec2Isabelle
  imports Main "HOL-Library.Multiset"
begin

section \<open>Strings of the navigation code\<close>

text \<open>
  A JavaScript string is a sequence of UTF-16 code units; here it is a list of
  characters. The case conversions are the ASCII ones (\<open>A\<close>..\<open>Z\<close> against
  \<open>a\<close>..\<open>z\<close>); every other character is left as it is. All keywords, prefixes and
  separators of \<open>navigation.ts\<close> are ASCII.
\<close>

definition toLowerCaseChar :: "char \<Rightarrow> char" where
  "toLowerCaseChar c =
     (let n = (of_char c :: nat) in if 65 \<le> n \<and> n \<le> 90 then char_of (n + 32) else c)"

definition toUpperCaseChar :: "char \<Rightarrow> char" where
  "toUpperCaseChar c =
     (let n = (of_char c :: nat) in if 97 \<le> n \<and> n \<le> 122 then char_of (n - 32) else c)"

definition toLowerCase :: "string \<Rightarrow> string" where
  "toLowerCase s = map toLowerCaseChar s"

text \<open>\<open>s.split(c)\<close> for a one-character separator: never empty, \<open>"".split(c) = [""]\<close>.\<close>

fun js_split :: "char \<Rightarrow> string \<Rightarrow> string list" where
  "js_split c [] = [[]]"
| "js_split c (x # xs) =
     (if x = c then [] # js_split c xs
      else (case js_split c xs of [] \<Rightarrow> [[x]] | p # ps \<Rightarrow> (x # p) # ps))"

text \<open>\<open>parts.join(sep)\<close>.\<close>

fun js_join :: "string \<Rightarrow> string list \<Rightarrow> string" where
  "js_join sep [] = []"
| "js_join sep [p] = p"
| "js_join sep (p # q # ps) = p @ sep @ js_join sep (q # ps)"

text \<open>\<open>s.startsWith(p)\<close> and \<open>s.includes(sub)\<close>.\<close>

definition startsWith :: "string \<Rightarrow> string \<Rightarrow> bool" where
  "startsWith s p = (take (length p) s = p)"

fun js_includes :: "string \<Rightarrow> string \<Rightarrow> bool" where
  "js_includes [] sub = (sub = [])"
| "js_includes (x # xs) sub = (startsWith (x # xs) sub \<or> js_includes xs sub)"

text \<open>\<open>word.charAt(0).toUpperCase() + word.slice(1)\<close>.\<close>

definition capitalize :: "string \<Rightarrow> string" where
  "capitalize word = (case word of [] \<Rightarrow> [] | c # cs \<Rightarrow> toUpperCaseChar c # cs)"

section \<open>Category extractor\<close>

definition CATEGORY_PREFIXES :: "string list" where
  "CATEGORY_PREFIXES =
     [''sql'', ''nosql'', ''fund'', ''adv'', ''util'', ''db'', ''api'', ''sec'', ''perf'',
      ''dep'', ''proj'']"

record extracted =
  category :: "string option"
  cleanName :: string

definition extractCategoryFromPath :: "string \<Rightarrow> extracted" where
  "extractCategoryFromPath pathName =
     (let parts = js_split (CHR ''-'') pathName in
      if length parts > 1 \<and> toLowerCase (hd parts) \<in> set CATEGORY_PREFIXES
      then \<lparr>category = Some (toLowerCase (hd parts)),
            cleanName = js_join ''-'' (tl parts)\<rparr>
      else \<lparr>category = None, cleanName = pathName\<rparr>)"

section \<open>Title formatter\<close>

definition minorWords :: "string list" where
  "minorWords =
     [''a'', ''an'', ''and'', ''the'', ''and'', ''but'', ''or'', ''nor'', ''as'', ''at'', ''by'',
      ''with'', ''for'', ''in'', ''of'', ''on'', ''per'', ''to'', ''via'', ''vs'', ''v'', ''vs.'',
      ''v.'']"

definition titleWord :: "nat \<Rightarrow> nat \<Rightarrow> string \<Rightarrow> string" where
  "titleWord len index word =
     (if index = 0 then capitalize word
      else if index = len - 1 then capitalize word
      else if js_includes word ''-''
        then js_join ''-'' (map capitalize (js_split (CHR ''-'') word))
      else if word \<in> set minorWords then word
      else capitalize word)"

definition toSmartTitleCase :: "string \<Rightarrow> string" where
  "toSmartTitleCase str =
     (let cleanName = cleanName (extractCategoryFromPath str) in
      if startsWith cleanName ''use'' \<and> \<not> startsWith cleanName ''user'' then cleanName
      else if cleanName = ''jQuery'' then ''jQuery''
      else (let array = js_split (CHR ''-'') cleanName in
            js_join '' '' (map (\<lambda>(index, word). titleWord (length array) index word)
                               (enumerate 0 array))))"

definition titleWord_without_hyphen_branch :: "nat \<Rightarrow> nat \<Rightarrow> string \<Rightarrow> string" where
  "titleWord_without_hyphen_branch len index word =
     (if index = 0 then capitalize word
      else if index = len - 1 then capitalize word
      else if word \<in> set minorWords then word
      else capitalize word)"

definition toSmartTitleCase_without_hyphen_branch :: "string \<Rightarrow> string" where
  "toSmartTitleCase_without_hyphen_branch str =
     (let cleanName = cleanName (extractCategoryFromPath str) in
      if startsWith cleanName ''use'' \<and> \<not> startsWith cleanName ''user'' then cleanName
      else if cleanName = ''jQuery'' then ''jQuery''
      else (let array = js_split (CHR ''-'') cleanName in
            js_join '' '' (map (\<lambda>(index, word).
                                  titleWord_without_hyphen_branch (length array) index word)
                               (enumerate 0 array))))"

text \<open>The words of a title, before they are joined with spaces.\<close>

definition titleWords :: "string list \<Rightarrow> string list" where
  "titleWords array = map (\<lambda>(index, word). titleWord (length array) index word) (enumerate 0 array)"

section \<open>Navigation items and sections\<close>

text \<open>
  An optional field of the interface is an \<open>option\<close>: \<open>None\<close> is \<open>undefined\<close>.
\<close>

datatype NavigationItem =
  NavigationItem (title: string) (href: string) (children: "NavigationItem list option")
    (icon: "string option") (order: "int option") (isExpanded: "bool option")

datatype NavigationSection =
  NavigationSection (sectionTitle: string) (sectionItems: "NavigationItem list")

section \<open>Sorter\<close>

definition getPriority :: "string \<Rightarrow> int" where
  "getPriority t =
     (let normalizedTitle = toLowerCase t in
      if js_includes normalizedTitle ''abbreviations'' \<or>
         js_includes normalizedTitle ''vocabulary'' \<or>
         js_includes normalizedTitle ''acronyms''
      then 1
      else if js_includes normalizedTitle ''setting up'' \<or>
         js_includes normalizedTitle ''set up'' \<or>
         js_includes normalizedTitle ''selection'' \<or>
         js_includes normalizedTitle ''starter'' \<or>
         js_includes normalizedTitle ''fundamentals'' \<or>
         js_includes normalizedTitle ''setup''
      then 2
      else if js_includes normalizedTitle ''getting started'' \<or>
         js_includes normalizedTitle ''project structure''
      then 3
      else if js_includes normalizedTitle ''introduction'' \<or>
         js_includes normalizedTitle ''foundation'' \<or>
         js_includes normalizedTitle ''intro''
      then 4
      else if js_includes normalizedTitle ''security'' \<or>
         js_includes normalizedTitle ''performance''
      then 999
      else if js_includes normalizedTitle ''bonus'' \<or>
         js_includes normalizedTitle ''libraries'' \<or>
         js_includes normalizedTitle ''optional'' \<or>
         js_includes normalizedTitle ''frameworks''
      then 9999
      else 99)"

text \<open>
  The comparator handed to \<open>items.sort\<close>. The collation \<open>localeCompare\<close> of the
  platform is a parameter.
\<close>

definition compareItems ::
  "(string \<Rightarrow> string \<Rightarrow> int) \<Rightarrow> NavigationItem \<Rightarrow> NavigationItem \<Rightarrow> int" where
  "compareItems localeCompare a b =
     (let priorityA = getPriority (title a); priorityB = getPriority (title b) in
      if priorityA \<noteq> 999 \<or> priorityB \<noteq> 999 then priorityA - priorityB
      else (case (order a, order b) of
              (Some oa, Some ob) \<Rightarrow> oa - ob
            | (Some oa, None) \<Rightarrow> - 1
            | (None, Some ob) \<Rightarrow> 1
            | (None, None) \<Rightarrow> localeCompare (title a) (title b)))"

text \<open>
  \<open>Array.prototype.sort\<close> is stable. It is modelled as the stable insertion sort. For a
  consistent comparator its result is sorted, a permutation of the input, and keeps the input
  order of the elements that compare equal, which determines the result.
\<close>

fun js_sort_insert :: "('a \<Rightarrow> 'a \<Rightarrow> int) \<Rightarrow> 'a \<Rightarrow> 'a list \<Rightarrow> 'a list" where
  "js_sort_insert cmp x [] = [x]"
| "js_sort_insert cmp x (y # ys) =
     (if cmp x y \<le> 0 then x # y # ys else y # js_sort_insert cmp x ys)"

fun js_sort :: "('a \<Rightarrow> 'a \<Rightarrow> int) \<Rightarrow> 'a list \<Rightarrow> 'a list" where
  "js_sort cmp [] = []"
| "js_sort cmp (x # xs) = js_sort_insert cmp x (js_sort cmp xs)"

definition sortNavigationItems ::
  "(string \<Rightarrow> string \<Rightarrow> int) \<Rightarrow> NavigationItem list \<Rightarrow> NavigationItem list" where
  "sortNavigationItems localeCompare items = js_sort (compareItems localeCompare) items"

text \<open>
  A consistent comparator: the signs of \<open>cmp a b\<close> and \<open>cmp b a\<close> are opposite, and
  \<open>cmp a b \<le> 0\<close> is transitive.
\<close>

definition consistentComparator :: "('a \<Rightarrow> 'a \<Rightarrow> int) \<Rightarrow> bool" where
  "consistentComparator cmp =
     ((\<forall>a b. (cmp a b < 0) = (0 < cmp b a)) \<and>
      (\<forall>a b c. cmp a b \<le> 0 \<and> cmp b c \<le> 0 \<longrightarrow> cmp a c \<le> 0))"

text \<open>A sample collation: comparison by character codes.\<close>

fun codeUnitCompare :: "string \<Rightarrow> string \<Rightarrow> int" where
  "codeUnitCompare [] [] = 0"
| "codeUnitCompare [] (y # ys) = - 1"
| "codeUnitCompare (x # xs) [] = 1"
| "codeUnitCompare (x # xs) (y # ys) =
     (if (of_char x :: nat) < of_char y then - 1
      else if (of_char y :: nat) < of_char x then 1
      else codeUnitCompare xs ys)"


text \<open>A node with no children, icon or expansion mark.\<close>

definition leaf :: "string \<Rightarrow> string \<Rightarrow> int option \<Rightarrow> NavigationItem" where
  "leaf t h ord = NavigationItem t h None None ord None"

section \<open>Categorizer\<close>

datatype js_error = TypeError | FsError

text \<open>The \<open>switch\<close> over the category code; a code without a \<open>case\<close> falls out of it.\<close>

definition categorySection :: "string \<Rightarrow> string option" where
  "categorySection c =
     (if c = ''sql'' then Some ''sql''
      else if c = ''nosql'' then Some ''nosql''
      else if c = ''db'' then Some ''databases''
      else if c = ''api'' then Some ''databases''
      else if c = ''fund'' then Some ''fundamentals''
      else if c = ''proj'' then Some ''projects''
      else if c = ''adv'' then Some ''advanced''
      else if c = ''sec'' then Some ''advanced''
      else if c = ''perf'' then Some ''advanced''
      else if c = ''dep'' then Some ''advanced''
      else if c = ''util'' then Some ''utilities''
      else None)"

text \<open>The loop over the path segments: the first segment that yields a section returns.\<close>

fun categoryFromSegments :: "string list \<Rightarrow> string option" where
  "categoryFromSegments [] = None"
| "categoryFromSegments (segment # rest) =
     (case category (extractCategoryFromPath segment) of
        None \<Rightarrow> categoryFromSegments rest
      | Some c \<Rightarrow>
          (if c = [] then categoryFromSegments rest
           else (case categorySection c of
                   Some s \<Rightarrow> Some s
                 | None \<Rightarrow> categoryFromSegments rest)))"

text \<open>The keyword rules for an item with children; \<open>None\<close> when no rule applies.\<close>

definition parentSection :: "string \<Rightarrow> string \<Rightarrow> string option" where
  "parentSection path lowTitle =
     (if js_includes path ''docker'' \<or> js_includes path ''kubernetes'' \<or>
         js_includes path ''deployment-strategies'' \<or> js_includes lowTitle ''docker'' \<or>
         js_includes lowTitle ''kubernetes'' \<or> js_includes lowTitle ''deployment''
      then Some ''advanced''
      else if js_includes path ''mysql'' \<or> js_includes path ''postgresql'' \<or>
         js_includes path ''sqlite'' \<or> js_includes path ''sql'' \<or>
         js_includes lowTitle ''mysql'' \<or> js_includes lowTitle ''postgresql'' \<or>
         js_includes lowTitle ''sqlite'' \<or> js_includes lowTitle ''sql''
      then Some ''sql''
      else if js_includes path ''mongodb'' \<or> js_includes path ''redis'' \<or>
         js_includes path ''nosql'' \<or> js_includes path ''cassandra'' \<or>
         js_includes path ''dynamodb'' \<or> js_includes lowTitle ''mongodb'' \<or>
         js_includes lowTitle ''redis'' \<or> js_includes lowTitle ''nosql'' \<or>
         js_includes lowTitle ''cassandra'' \<or> js_includes lowTitle ''dynamodb''
      then Some ''nosql''
      else if js_includes path ''database'' \<or> js_includes path ''environment-setup'' \<or>
         js_includes path ''managers'' \<or> js_includes path ''version'' \<or>
         js_includes path ''transaction-models'' \<or> js_includes path ''data'' \<or>
         js_includes path ''graphql'' \<or> js_includes lowTitle ''database'' \<or>
         js_includes lowTitle ''databases'' \<or> js_includes lowTitle ''managers'' \<or>
         js_includes lowTitle ''environment'' \<or> js_includes lowTitle ''version'' \<or>
         js_includes lowTitle ''transaction'' \<or> js_includes lowTitle ''data'' \<or>
         js_includes lowTitle ''graphql''
      then Some ''databases''
      else None)"

text \<open>The keyword rules for a page, and for an item with children that no rule above took.\<close>

definition pageSection :: "string \<Rightarrow> string \<Rightarrow> string" where
  "pageSection path lowTitle =
     (if js_includes path ''package-managers'' \<or> js_includes path ''version-control'' \<or>
         js_includes path ''foundation'' \<or>
         (js_includes path ''setup'' \<and> \<not> js_includes path ''environment-setup'') \<or>
         js_includes path ''back-end'' \<or> js_includes path ''vocabulary'' \<or>
         js_includes path ''abbreviations''
      then ''fundamentals''
      else if js_includes path ''mysql'' \<or> js_includes path ''postgresql'' \<or>
         js_includes path ''sqlite'' \<or> js_includes path ''sql'' \<or>
         js_includes lowTitle ''mysql'' \<or> js_includes lowTitle ''postgresql'' \<or>
         js_includes lowTitle ''sqlite'' \<or> js_includes lowTitle ''sql''
      then ''sql''
      else if js_includes path ''mongodb'' \<or> js_includes path ''redis'' \<or>
         js_includes path ''nosql'' \<or> js_includes path ''cassandra'' \<or>
         js_includes path ''dynamodb'' \<or> js_includes lowTitle ''mongodb'' \<or>
         js_includes lowTitle ''redis'' \<or> js_includes lowTitle ''nosql'' \<or>
         js_includes lowTitle ''cassandra'' \<or> js_includes lowTitle ''dynamodb''
      then ''nosql''
      else if js_includes path ''docker'' \<or> js_includes path ''kubernetes'' \<or>
         js_includes path ''advanced'' \<or> js_includes path ''principles'' \<or>
         js_includes path ''quality-security-performance'' \<or>
         js_includes path ''deployment-strategies'' \<or> js_includes lowTitle ''docker'' \<or>
         js_includes lowTitle ''principles'' \<or> js_includes lowTitle ''advanced'' \<or>
         js_includes lowTitle ''security'' \<or> js_includes lowTitle ''kubernetes'' \<or>
         js_includes lowTitle ''deployment''
      then ''advanced''
      else if js_includes path ''seo-accessibility'' \<or>
         js_includes path ''introduction-to-html'' \<or>
         js_includes path ''environment-setup'' \<or>
         js_includes path ''introduction-to-javascript'' \<or>
         js_includes path ''document-object-model'' \<or> js_includes path ''forms'' \<or>
         js_includes path ''jquery'' \<or>
         js_includes path ''documentation-and-learning-platforms'' \<or>
         js_includes lowTitle ''html'' \<or> js_includes lowTitle ''css'' \<or>
         js_includes lowTitle ''javascript'' \<or> js_includes lowTitle ''seo'' \<or>
         js_includes lowTitle ''environment'' \<or> js_includes lowTitle ''dom'' \<or>
         js_includes lowTitle ''forms'' \<or> js_includes lowTitle ''jquery'' \<or>
         js_includes lowTitle ''documentation'' \<or>
         js_includes lowTitle ''learning platforms''
      then ''databases''
      else if js_includes path ''utilities-tools'' \<or>
         js_includes path ''resources-utilities'' \<or>
         js_includes path ''helper-functions'' \<or> js_includes path ''development-tools'' \<or>
         js_includes path ''utility-libraries'' \<or> js_includes lowTitle ''utilities'' \<or>
         js_includes lowTitle ''utility'' \<or> js_includes lowTitle ''helper'' \<or>
         js_includes lowTitle ''tools'' \<or> js_includes lowTitle ''platforms''
      then ''utilities''
      else ''fundamentals'')"

definition categorizeItem :: "NavigationItem \<Rightarrow> string" where
  "categorizeItem item =
     (let path = toLowerCase (href item);
          lowTitle = toLowerCase (title item);
          pathSegments = filter (\<lambda>segment. length segment > 0) (js_split (CHR ''/'') path)
      in case categoryFromSegments pathSegments of
           Some s \<Rightarrow> s
         | None \<Rightarrow>
             (if (case children item of Some cs \<Rightarrow> length cs > 0 | None \<Rightarrow> False)
              then (case parentSection path lowTitle of
                      Some s \<Rightarrow> s
                    | None \<Rightarrow> pageSection path lowTitle)
              else pageSection path lowTitle))"

record categories =
  fundamentals :: "NavigationItem list"
  sql :: "NavigationItem list"
  nosql :: "NavigationItem list"
  databases :: "NavigationItem list"
  projects :: "NavigationItem list"
  utilities :: "NavigationItem list"
  advanced :: "NavigationItem list"

text \<open>
  \<open>categories[category].push(item)\<close>: a key that is not one of the seven arrays has no
  \<open>push\<close>, and the call raises a \<open>TypeError\<close>.
\<close>

definition pushCategory :: "categories \<Rightarrow> string \<Rightarrow> NavigationItem \<Rightarrow> js_error + categories" where
  "pushCategory cats key item =
     (if key = ''fundamentals'' then Inr (cats\<lparr>fundamentals := fundamentals cats @ [item]\<rparr>)
      else if key = ''sql'' then Inr (cats\<lparr>sql := sql cats @ [item]\<rparr>)
      else if key = ''nosql'' then Inr (cats\<lparr>nosql := nosql cats @ [item]\<rparr>)
      else if key = ''databases'' then Inr (cats\<lparr>databases := databases cats @ [item]\<rparr>)
      else if key = ''projects'' then Inr (cats\<lparr>projects := projects cats @ [item]\<rparr>)
      else if key = ''utilities'' then Inr (cats\<lparr>utilities := utilities cats @ [item]\<rparr>)
      else if key = ''advanced'' then Inr (cats\<lparr>advanced := advanced cats @ [item]\<rparr>)
      else Inl TypeError)"

fun categorizeAll :: "categories \<Rightarrow> NavigationItem list \<Rightarrow> js_error + categories" where
  "categorizeAll cats [] = Inr cats"
| "categorizeAll cats (item # rest) =
     (case pushCategory cats (categorizeItem item) item of
        Inl e \<Rightarrow> Inl e
      | Inr cats' \<Rightarrow> categorizeAll cats' rest)"

definition pushSection :: "string \<Rightarrow> NavigationItem list \<Rightarrow> NavigationSection list" where
  "pushSection label xs = (if length xs > 0 then [NavigationSection label xs] else [])"

definition categorizeNavigationItems ::
  "NavigationItem list \<Rightarrow> js_error + NavigationSection list" where
  "categorizeNavigationItems items =
     (case categorizeAll
             \<lparr>fundamentals = [], sql = [], nosql = [], databases = [], projects = [],
              utilities = [], advanced = []\<rparr> items of
        Inl e \<Rightarrow> Inl e
      | Inr cats \<Rightarrow>
          Inr (pushSection ''Fundamentals'' (fundamentals cats) @
               pushSection ''SQL'' (sql cats) @
               pushSection ''NoSQL'' (nosql cats) @
               pushSection ''Databases'' (databases cats) @
               pushSection ''Projects'' (projects cats) @
               pushSection ''Utilities & Tools'' (utilities cats) @
               pushSection ''Advanced Topics'' (advanced cats)))"

text \<open>The section keys with their labels, in the order the sections are emitted.\<close>

definition sectionTable :: "(string \<times> string) list" where
  "sectionTable =
     [(''fundamentals'', ''Fundamentals''), (''sql'', ''SQL''), (''nosql'', ''NoSQL''),
      (''databases'', ''Databases''), (''projects'', ''Projects''),
      (''utilities'', ''Utilities & Tools''), (''advanced'', ''Advanced Topics'')]"

text \<open>The input items that are assigned to one key, in input order.\<close>

definition inCategory :: "string \<Rightarrow> NavigationItem list \<Rightarrow> NavigationItem list" where
  "inCategory key items = filter (\<lambda>item. categorizeItem item = key) items"

section \<open>Expansion-state projector\<close>

fun isPathInSubtree :: "string \<Rightarrow> NavigationItem \<Rightarrow> bool" where
  "isPathInSubtree currentPath (NavigationItem t h cs ic ord ex) =
     (if currentPath = h then True
      else if startsWith currentPath (h @ ''/'') then True
      else (case cs of
              Some kids \<Rightarrow> list_ex (isPathInSubtree currentPath) kids
            | None \<Rightarrow> False))"

fun setItemExpandedState :: "NavigationItem \<Rightarrow> string \<Rightarrow> NavigationItem" where
  "setItemExpandedState (NavigationItem t h cs ic ord ex) currentPath =
     NavigationItem t h
       (map_option (map (\<lambda>child. setItemExpandedState child currentPath)) cs)
       ic ord
       (Some (isPathInSubtree currentPath (NavigationItem t h cs ic ord ex)))"

definition normalizedPath :: "string \<Rightarrow> string" where
  "normalizedPath currentPath =
     (if startsWith currentPath ''/'' then currentPath else ''/'' @ currentPath)"

definition setExpandedState :: "NavigationSection list \<Rightarrow> string \<Rightarrow> NavigationSection list" where
  "setExpandedState sections currentPath =
     map (\<lambda>section.
            NavigationSection (sectionTitle section)
              (map (\<lambda>item. setItemExpandedState item (normalizedPath currentPath))
                 (sectionItems section)))
         sections"

text \<open>
  The nodes strictly below a node, the nodes of a tree (the node first), and the nodes of
  a list of sections, all in document order.
\<close>

fun descendants :: "NavigationItem \<Rightarrow> NavigationItem list" where
  "descendants (NavigationItem t h cs ic ord ex) =
     (case cs of
        Some kids \<Rightarrow> concat (map (\<lambda>child. child # descendants child) kids)
      | None \<Rightarrow> [])"

definition nodes :: "NavigationItem \<Rightarrow> NavigationItem list" where
  "nodes item = item # descendants item"

definition sectionNodes :: "NavigationSection list \<Rightarrow> NavigationItem list" where
  "sectionNodes sections = concat (map (\<lambda>section. concat (map nodes (sectionItems section))) sections)"

text \<open>
  The condition of an expanded node on the node itself: the location is its href, or its href
  followed by a separator starts the location.
\<close>

definition locatedAt :: "string \<Rightarrow> NavigationItem \<Rightarrow> bool" where
  "locatedAt currentPath item =
     (currentPath = href item \<or> startsWith currentPath (href item @ ''/''))"

section \<open>Metadata reader\<close>

text \<open>
  The character classes of the three regular expressions, on ASCII: \<open>\s\<close> (space, tab, line
  feed, vertical tab, form feed, carriage return), the line terminators that \<open>.\<close> does not
  match, \<open>\d\<close>, and the two quote characters.
\<close>

definition isSpace :: "char \<Rightarrow> bool" where
  "isSpace c = (c \<in> set [CHR '' '', CHR 0x09, CHR 0x0A, CHR 0x0B, CHR 0x0C, CHR 0x0D])"

definition isLineTerminator :: "char \<Rightarrow> bool" where
  "isLineTerminator c = (c = CHR 0x0A \<or> c = CHR 0x0D)"

definition isDigit :: "char \<Rightarrow> bool" where
  "isDigit c = (c \<in> set ''0123456789'')"

definition isQuote :: "char \<Rightarrow> bool" where
  "isQuote c = (c = CHR 0x22 \<or> c = CHR 0x27)"

text \<open>
  \<open>([\s\S]*?)delim\<close> at the start of a string: the shortest text before an occurrence
  of the delimiter.
\<close>

fun lazyUntil :: "string \<Rightarrow> string \<Rightarrow> string option" where
  "lazyUntil delim [] = (if startsWith [] delim then Some [] else None)"
| "lazyUntil delim (c # cs) =
     (if startsWith (c # cs) delim then Some []
      else map_option ((#) c) (lazyUntil delim cs))"

text \<open>
  \<open>\s*\n([\s\S]*?)\n---\<close> at the start of a string. The greedy \<open>\s*\<close> first takes a
  white-space character and gives it back only when the rest does not match.
\<close>

fun frontmatterAfterDashes :: "string \<Rightarrow> string option" where
  "frontmatterAfterDashes [] = None"
| "frontmatterAfterDashes (c # cs) =
     (if isSpace c then
        (case frontmatterAfterDashes cs of
           Some m \<Rightarrow> Some m
         | None \<Rightarrow> if c = CHR 0x0A then lazyUntil (CHR 0x0A # ''---'') cs else None)
      else None)"

text \<open>\<open>content.match(/^---\s*\n([\s\S]*?)\n---/)\<close>: the first group of the match, if any.\<close>

definition frontmatterMatch :: "string \<Rightarrow> string option" where
  "frontmatterMatch content =
     (if startsWith content ''---'' then frontmatterAfterDashes (drop 3 content) else None)"

text \<open>\<open>(.*)["']\<close> and \<open>(.+)["']\<close> at the start of a string, greedy: the group.\<close>

fun dotStarQuote :: "string \<Rightarrow> string option" where
  "dotStarQuote [] = None"
| "dotStarQuote (c # cs) =
     (if \<not> isLineTerminator c then
        (case dotStarQuote cs of
           Some m \<Rightarrow> Some (c # m)
         | None \<Rightarrow> if isQuote c then Some [] else None)
      else if isQuote c then Some [] else None)"

definition dotPlusQuote :: "string \<Rightarrow> string option" where
  "dotPlusQuote s =
     (case s of
        [] \<Rightarrow> None
      | c # cs \<Rightarrow> if isLineTerminator c then None else map_option ((#) c) (dotStarQuote cs))"

text \<open>
  \<open>title:\s*["'](.+)["']\<close> at the start of a string. After the longest run of white space
  the next character has to be the quote; a shorter run is followed by white space.
\<close>

definition titleAt :: "string \<Rightarrow> string option" where
  "titleAt s =
     (if startsWith s ''title:'' then
        (case dropWhile isSpace (drop 6 s) of
           [] \<Rightarrow> None
         | q # rest \<Rightarrow> if isQuote q then dotPlusQuote rest else None)
      else None)"

text \<open>\<open>order:\s*(\d+)\<close> at the start of a string: the digits.\<close>

definition orderAt :: "string \<Rightarrow> string option" where
  "orderAt s =
     (if startsWith s ''order:'' then
        (let digits = takeWhile isDigit (dropWhile isSpace (drop 6 s))
         in if digits = [] then None else Some digits)
      else None)"

text \<open>An unanchored match: the first position, from the left, where the pattern matches.\<close>

fun firstMatch :: "(string \<Rightarrow> string option) \<Rightarrow> string \<Rightarrow> string option" where
  "firstMatch at [] = at []"
| "firstMatch at (c # cs) =
     (case at (c # cs) of Some m \<Rightarrow> Some m | None \<Rightarrow> firstMatch at cs)"

text \<open>\<open>parseInt\<close> of a string of decimal digits (exact; no rounding to a double).\<close>

definition digitValue :: "char \<Rightarrow> int" where
  "digitValue c = int (of_char c) - 48"

definition parseInt :: "string \<Rightarrow> int" where
  "parseInt digits = foldl (\<lambda>n d. 10 * n + digitValue d) 0 digits"

record metadata =
  metaTitle :: "string option"
  metaOrder :: "int option"

definition emptyMetadata :: metadata where
  "emptyMetadata = \<lparr>metaTitle = None, metaOrder = None\<rparr>"

text \<open>
  The environment of a call: whether \<open>window\<close> is defined, and what \<open>fs.readFileSync\<close>
  gives for a path (the text, or the error it throws).
\<close>

record environment =
  hasWindow :: bool
  readFileSync :: "string \<Rightarrow> js_error + string"

text \<open>The body of the \<open>try\<close>: \<open>Inl\<close> is an exception thrown in it.\<close>

definition readMDXMetadata_try :: "environment \<Rightarrow> string \<Rightarrow> js_error + metadata" where
  "readMDXMetadata_try env filePath =
     (if hasWindow env then Inr emptyMetadata
      else (case readFileSync env filePath of
              Inl e \<Rightarrow> Inl e
            | Inr content \<Rightarrow>
                (case frontmatterMatch content of
                   None \<Rightarrow> Inr emptyMetadata
                 | Some frontmatter \<Rightarrow>
                     Inr \<lparr>metaTitle = firstMatch titleAt frontmatter,
                          metaOrder = map_option parseInt (firstMatch orderAt frontmatter)\<rparr>)))"

text \<open>The function with its \<open>catch\<close>: \<open>Inl\<close> would be a rejected promise.\<close>

definition readMDXMetadata :: "environment \<Rightarrow> string \<Rightarrow> js_error + metadata" where
  "readMDXMetadata env filePath =
     (case readMDXMetadata_try env filePath of
        Inl e \<Rightarrow> Inr emptyMetadata
      | Inr m \<Rightarrow> Inr m)"

text \<open>
  What it is for a front-matter text to match the pattern of a field, somewhere in it.
\<close>

definition titlePattern :: "string \<Rightarrow> bool" where
  "titlePattern fm =
     (\<exists>pre ws q1 body q2 post.
        fm = pre @ ''title:'' @ ws @ [q1] @ body @ [q2] @ post \<and>
        (\<forall>c \<in> set ws. isSpace c) \<and> isQuote q1 \<and> body \<noteq> [] \<and>
        (\<forall>c \<in> set body. \<not> isLineTerminator c) \<and> isQuote q2)"

definition orderPattern :: "string \<Rightarrow> bool" where
  "orderPattern fm =
     (\<exists>pre ws d post.
        fm = pre @ ''order:'' @ ws @ [d] @ post \<and> (\<forall>c \<in> set ws. isSpace c) \<and> isDigit d)"

section \<open>Directory scanner\<close>

text \<open>
  The content tree. A directory has a name, its entries, and whether \<open>fs.readdirSync\<close>
  succeeds on it; \<open>fs.existsSync\<close> on a path below it looks at the entries whether or not
  the listing succeeds.
\<close>

datatype FsEntry =
  FsFile (entryName: string)
| FsDir (entryName: string) (entries: "FsEntry list") (listable: bool)

definition isDirectory :: "FsEntry \<Rightarrow> bool" where
  "isDirectory entry = (case entry of FsFile n \<Rightarrow> False | FsDir n es ok \<Rightarrow> True)"

text \<open>\<open>fs.existsSync(path.join(fullPath, file))\<close>, for the entry at \<open>fullPath\<close>.\<close>

definition existsSync :: "FsEntry \<Rightarrow> string \<Rightarrow> bool" where
  "existsSync entry file =
     (case entry of
        FsFile n \<Rightarrow> False
      | FsDir n es ok \<Rightarrow> list_ex (\<lambda>e. entryName e = file) es)"

definition pageFiles :: "string list" where
  "pageFiles = [''page.tsx'', ''page.mdx'', ''page.js'']"

text \<open>\<open>path.join(a, b)\<close> for a normalised path and an entry name.\<close>

definition pathJoin :: "string \<Rightarrow> string \<Rightarrow> string" where
  "pathJoin a b = a @ ''/'' @ b"

definition skippedName :: "string \<Rightarrow> bool" where
  "skippedName name =
     (startsWith name ''.'' \<or> name = ''globals.css'' \<or> name = ''favicon.ico'' \<or>
      name = ''layout.tsx'')"

text \<open>\<open>metadata.title || toSmartTitleCase(entry.name)\<close>: an empty title is falsy.\<close>

definition titleOr :: "string option \<Rightarrow> string \<Rightarrow> string" where
  "titleOr t name =
     (case t of None \<Rightarrow> toSmartTitleCase name
      | Some s \<Rightarrow> if s = [] then toSmartTitleCase name else s)"

text \<open>
  \<open>scanDirectory\<close> returns the items and the lines written with \<open>console.error\<close> (the
  directory paths). \<open>scanEntries\<close> is the loop over the listing inside the \<open>try\<close>: its
  first component is \<open>Inl\<close> when an exception leaves the loop, which the \<open>catch\<close> of
  \<open>scanDirectory\<close> turns into the empty list and a logged line.
\<close>

fun scanDirectory ::
    "environment \<Rightarrow> (string \<Rightarrow> string \<Rightarrow> int) \<Rightarrow> FsEntry \<Rightarrow> string \<Rightarrow> string \<Rightarrow>
       NavigationItem list \<times> string list"
  and scanEntries ::
    "environment \<Rightarrow> (string \<Rightarrow> string \<Rightarrow> int) \<Rightarrow> FsEntry list \<Rightarrow> string \<Rightarrow> string \<Rightarrow>
       (js_error + NavigationItem list) \<times> string list"
where
  "scanDirectory env lc (FsFile n) dirPath basePath = ([], [dirPath])"
| "scanDirectory env lc (FsDir n es ok) dirPath basePath =
     (if \<not> ok then ([], [dirPath])
      else (case scanEntries env lc es dirPath basePath of
              (Inl e, logged) \<Rightarrow> ([], logged @ [dirPath])
            | (Inr items, logged) \<Rightarrow> (sortNavigationItems lc items, logged)))"
| "scanEntries env lc [] dirPath basePath = (Inr [], [])"
| "scanEntries env lc (entry # rest) dirPath basePath =
     (if skippedName (entryName entry) then scanEntries env lc rest dirPath basePath
      else if isDirectory entry then
        (let fullPath = pathJoin dirPath (entryName entry);
             routePath = basePath @ ''/'' @ entryName entry
         in if list_ex (existsSync entry) pageFiles then
              (case find (existsSync entry) pageFiles of
                 None \<Rightarrow> (Inl TypeError, [])
               | Some pageFile \<Rightarrow>
                   (case readMDXMetadata env (pathJoin fullPath pageFile) of
                      Inl e \<Rightarrow> (Inl e, [])
                    | Inr metadata \<Rightarrow>
                        (case scanDirectory env lc entry fullPath routePath of
                           (childItems, log1) \<Rightarrow>
                             (case scanEntries env lc rest dirPath basePath of
                                (Inl e, log2) \<Rightarrow> (Inl e, log1 @ log2)
                              | (Inr items, log2) \<Rightarrow>
                                  (Inr (NavigationItem
                                          (titleOr (metaTitle metadata) (entryName entry))
                                          (if routePath = ''/page'' then ''/'' else routePath)
                                          (if length childItems > 0
                                           then Some (sortNavigationItems lc childItems) else None)
                                          None (metaOrder metadata) None # items),
                                   log1 @ log2)))))
            else
              (case scanDirectory env lc entry fullPath routePath of
                 (childItems, log1) \<Rightarrow>
                   (case scanEntries env lc rest dirPath basePath of
                      (Inl e, log2) \<Rightarrow> (Inl e, log1 @ log2)
                    | (Inr items, log2) \<Rightarrow>
                        (Inr ((if length childItems > 0
                               then [NavigationItem (toSmartTitleCase (entryName entry)) routePath
                                       (Some (sortNavigationItems lc childItems)) None None None]
                               else []) @ items),
                         log1 @ log2))))
      else scanEntries env lc rest dirPath basePath)"

text \<open>
  An entry whose own entries are gone, and a tree in which every directory that cannot be
  listed is replaced by a directory that can, with the same files and with its
  sub-directories emptied. The failing directory itself stays in the tree, and so do its
  files: its page file, its own node and the answers of \<open>fs.existsSync\<close> are kept. Only
  what lies below its sub-directories is gone.
\<close>

definition emptied :: "FsEntry \<Rightarrow> FsEntry" where
  "emptied entry = (case entry of FsFile n \<Rightarrow> FsFile n | FsDir n es ok \<Rightarrow> FsDir n [] True)"

fun failingDirectoriesEmptied :: "FsEntry \<Rightarrow> FsEntry" where
  "failingDirectoriesEmptied (FsFile n) = FsFile n"
| "failingDirectoriesEmptied (FsDir n es ok) =
     (if ok then FsDir n (map failingDirectoriesEmptied es) True
      else FsDir n (map emptied es) True)"

text \<open>
  The metadata that \<open>await readMDXMetadata(pagePath)\<close> yields, and what one entry of a
  listing adds to the items and to the log of its directory.
\<close>

definition metadataOf :: "environment \<Rightarrow> string \<Rightarrow> metadata" where
  "metadataOf env filePath =
     (case readMDXMetadata_try env filePath of Inl e \<Rightarrow> emptyMetadata | Inr m \<Rightarrow> m)"

definition entryItems ::
  "environment \<Rightarrow> (string \<Rightarrow> string \<Rightarrow> int) \<Rightarrow> FsEntry \<Rightarrow> string \<Rightarrow> string \<Rightarrow> NavigationItem list" where
  "entryItems env lc entry dirPath basePath =
     (if skippedName (entryName entry) \<or> \<not> isDirectory entry then []
      else
        (let fullPath = pathJoin dirPath (entryName entry);
             routePath = basePath @ ''/'' @ entryName entry;
             childItems = fst (scanDirectory env lc entry fullPath routePath)
         in case find (existsSync entry) pageFiles of
              Some pageFile \<Rightarrow>
                [NavigationItem
                   (titleOr (metaTitle (metadataOf env (pathJoin fullPath pageFile)))
                      (entryName entry))
                   (if routePath = ''/page'' then ''/'' else routePath)
                   (if childItems = [] then None else Some (sortNavigationItems lc childItems))
                   None (metaOrder (metadataOf env (pathJoin fullPath pageFile))) None]
            | None \<Rightarrow>
                (if childItems = [] then []
                 else [NavigationItem (toSmartTitleCase (entryName entry)) routePath
                         (Some (sortNavigationItems lc childItems)) None None None])))"

definition entryLog ::
  "environment \<Rightarrow> (string \<Rightarrow> string \<Rightarrow> int) \<Rightarrow> FsEntry \<Rightarrow> string \<Rightarrow> string \<Rightarrow> string list" where
  "entryLog env lc entry dirPath basePath =
     (if skippedName (entryName entry) \<or> \<not> isDirectory entry then []
      else snd (scanDirectory env lc entry (pathJoin dirPath (entryName entry))
                  (basePath @ ''/'' @ entryName entry)))"

text \<open>Sample inputs: a file with front matter, an environment, and a content tree.\<close>

definition sampleFile :: string where
  "sampleFile =
     ''---'' @ [CHR 0x0A] @ ''title: '' @ [CHR 0x22] @ ''Custom Name'' @ [CHR 0x22] @ [CHR 0x0A] @
     ''weight: 2'' @ [CHR 0x0A] @ ''---'' @ [CHR 0x0A] @ ''# Heading''"

definition sampleEnvironment :: environment where
  "sampleEnvironment =
     \<lparr>hasWindow = False,
      readFileSync = (\<lambda>p. if p = ''app/page.mdx'' then Inr sampleFile else Inl FsError)\<rparr>"

definition brokenDir :: FsEntry where
  "brokenDir = FsDir ''broken'' [FsDir ''topic'' [FsFile ''page.tsx''] True] False"

definition guideDir :: FsEntry where
  "guideDir = FsDir ''guide'' [FsFile ''page.tsx''] True"

definition brokenPageDir :: FsEntry where
  "brokenPageDir =
     FsDir ''broken'' [FsFile ''page.mdx'', FsDir ''topic'' [FsFile ''page.tsx''] True] False"

section \<open>Facts about splitting and joining\<close>

lemma js_split_not_Nil: "js_split c s \<noteq> []"
  by (induction s) (auto split: list.splits)

lemma js_join_js_split: "js_join [c] (js_split c s) = s"
proof (induction s)
  case Nil
  show ?case by simp
next
  case (Cons x xs)
  obtain p ps where sp: "js_split c xs = p # ps"
    using js_split_not_Nil [of c xs] by (cases "js_split c xs") auto
  show ?case
  proof (cases "x = c")
    case True
    with Cons sp show ?thesis by simp
  next
    case False
    with Cons sp show ?thesis by (cases ps) auto
  qed
qed

lemma js_split_tokens: "t \<in> set (js_split c s) \<Longrightarrow> c \<notin> set t"
proof (induction s arbitrary: t)
  case Nil
  then show ?case by simp
next
  case (Cons x xs)
  obtain p ps where sp: "js_split c xs = p # ps"
    using js_split_not_Nil [of c xs] by (cases "js_split c xs") auto
  with Cons show ?case by (auto split: if_splits)
qed

lemma js_split_none: "c \<notin> set s \<Longrightarrow> js_split c s = [s]"
  by (induction s) auto

lemma js_split_length: "(1 < length (js_split c s)) = (c \<in> set s)"
proof (induction s)
  case Nil
  show ?case by simp
next
  case (Cons x xs)
  obtain p ps where sp: "js_split c xs = p # ps"
    using js_split_not_Nil [of c xs] by (cases "js_split c xs") auto
  with Cons show ?case by auto
qed

lemma js_split_head_tail:
  "1 < length (js_split c s) \<Longrightarrow>
     s = hd (js_split c s) @ [c] @ js_join [c] (tl (js_split c s))"
proof -
  assume len: "1 < length (js_split c s)"
  then obtain p q qs where sp: "js_split c s = p # q # qs"
    by (cases "js_split c s"; cases "tl (js_split c s)") auto
  have "js_join [c] (p # q # qs) = s"
    using js_join_js_split [of c s] sp by simp
  then show ?thesis using sp by simp
qed

section \<open>Category extractor: the contract\<close>

text \<open>
  Claim C4. \<open>extractCategoryFromPath\<close> returns a category exactly when the split on
  \<open>-\<close> has more than one token and the lower-cased first token is one of the category
  codes. Then the category is that lower-cased token, the clean name is the other tokens
  joined with \<open>-\<close>, and the input is the first token, a hyphen and the clean name, so the
  leading token is no part of the clean name. In every other case the category is null and
  the clean name is the input. The function is a total, pure HOL function.
\<close>

theorem extractCategoryFromPath_contract:
  "((category (extractCategoryFromPath s) \<noteq> None) =
      (1 < length (js_split (CHR ''-'') s) \<and>
       toLowerCase (hd (js_split (CHR ''-'') s)) \<in> set CATEGORY_PREFIXES)) \<and>
   (1 < length (js_split (CHR ''-'') s) \<and>
      toLowerCase (hd (js_split (CHR ''-'') s)) \<in> set CATEGORY_PREFIXES \<longrightarrow>
        category (extractCategoryFromPath s) = Some (toLowerCase (hd (js_split (CHR ''-'') s))) \<and>
        cleanName (extractCategoryFromPath s) = js_join ''-'' (tl (js_split (CHR ''-'') s)) \<and>
        s = hd (js_split (CHR ''-'') s) @ ''-'' @ cleanName (extractCategoryFromPath s)) \<and>
   (\<not> (1 < length (js_split (CHR ''-'') s) \<and>
       toLowerCase (hd (js_split (CHR ''-'') s)) \<in> set CATEGORY_PREFIXES) \<longrightarrow>
        category (extractCategoryFromPath s) = None \<and>
        cleanName (extractCategoryFromPath s) = s)"
  using js_split_head_tail [of "CHR ''-''" s]
  by (auto simp: extractCategoryFromPath_def Let_def)

theorem extractCategoryFromPath_contract_witness:
  "category (extractCategoryFromPath ''DB-foo-bar'') = Some ''db'' \<and>
   cleanName (extractCategoryFromPath ''DB-foo-bar'') = ''foo-bar'' \<and>
   category (extractCategoryFromPath ''my-page'') = None \<and>
   cleanName (extractCategoryFromPath ''my-page'') = ''my-page'' \<and>
   category (extractCategoryFromPath ''api'') = None \<and>
   cleanName (extractCategoryFromPath ''api'') = ''api''"
proof -
  have 1: "1 < length (js_split (CHR ''-'') ''DB-foo-bar'') \<and>
      toLowerCase (hd (js_split (CHR ''-'') ''DB-foo-bar'')) \<in> set CATEGORY_PREFIXES"
    by code_simp
  have 2: "\<not> (1 < length (js_split (CHR ''-'') ''my-page'') \<and>
      toLowerCase (hd (js_split (CHR ''-'') ''my-page'')) \<in> set CATEGORY_PREFIXES)"
    by code_simp
  have 3: "\<not> (1 < length (js_split (CHR ''-'') ''api'') \<and>
      toLowerCase (hd (js_split (CHR ''-'') ''api'')) \<in> set CATEGORY_PREFIXES)"
    by code_simp
  have 4: "toLowerCase (hd (js_split (CHR ''-'') ''DB-foo-bar'')) = ''db''"
    "js_join ''-'' (tl (js_split (CHR ''-'') ''DB-foo-bar'')) = ''foo-bar''"
    by code_simp+
  from 1 extractCategoryFromPath_contract [of "''DB-foo-bar''"]
  have "category (extractCategoryFromPath ''DB-foo-bar'') = Some ''db'' \<and>
      cleanName (extractCategoryFromPath ''DB-foo-bar'') = ''foo-bar''"
    by (simp only: 4)
  moreover from 2 extractCategoryFromPath_contract [of "''my-page''"]
  have "category (extractCategoryFromPath ''my-page'') = None \<and>
      cleanName (extractCategoryFromPath ''my-page'') = ''my-page''"
    by blast
  moreover from 3 extractCategoryFromPath_contract [of "''api''"]
  have "category (extractCategoryFromPath ''api'') = None \<and>
      cleanName (extractCategoryFromPath ''api'') = ''api''"
    by blast
  ultimately show ?thesis by blast
qed

section \<open>Title formatter: idempotence and the dead branch\<close>

lemma upper_code:
  "97 \<le> (of_char c :: nat) \<Longrightarrow> (of_char c :: nat) \<le> 122 \<Longrightarrow>
     (of_char (char_of ((of_char c :: nat) - 32)) :: nat) = of_char c - 32"
  by simp

lemma toUpperCaseChar_idem: "toUpperCaseChar (toUpperCaseChar c) = toUpperCaseChar c"
  using upper_code [of c] by (auto simp add: toUpperCaseChar_def Let_def simp del: of_char_of)

lemma of_char_hyphen: "(of_char c :: nat) = 45 \<Longrightarrow> c = CHR ''-''"
proof -
  assume a: "(of_char c :: nat) = 45"
  have "(of_char (CHR ''-'') :: nat) = 45" by simp
  with a have "(of_char c :: nat) = of_char (CHR ''-'')" by simp
  then show ?thesis by (simp only: of_char_eq_iff)
qed

lemma toUpperCaseChar_eq_hyphen: "(toUpperCaseChar c = CHR ''-'') = (c = CHR ''-'')"
proof
  assume "toUpperCaseChar c = CHR ''-''"
  then have "(of_char (toUpperCaseChar c) :: nat) = 45" by simp
  then have "(of_char c :: nat) = 45"
    using upper_code [of c]
    by (auto simp add: toUpperCaseChar_def Let_def simp del: of_char_of split: if_splits)
  then show "c = CHR ''-''" by (rule of_char_hyphen)
next
  assume "c = CHR ''-''"
  then show "toUpperCaseChar c = CHR ''-''" by (simp add: toUpperCaseChar_def)
qed

lemma js_includes_char: "js_includes s [c] = (c \<in> set s)"
  by (induction s) (auto simp: startsWith_def)

lemma capitalize_idem: "capitalize (capitalize w) = capitalize w"
  by (cases w) (simp_all add: capitalize_def toUpperCaseChar_idem)

lemma capitalize_hyphen: "(CHR ''-'' \<in> set (capitalize w)) = (CHR ''-'' \<in> set w)"
proof (cases w)
  case Nil
  then show ?thesis by (simp add: capitalize_def)
next
  case (Cons a as)
  have "(toUpperCaseChar a = CHR ''-'') = (a = CHR ''-'')" by (rule toUpperCaseChar_eq_hyphen)
  then show ?thesis using Cons by (auto simp: capitalize_def)
qed

lemma titleWord_hyphen_free:
  "CHR ''-'' \<notin> set w \<Longrightarrow> CHR ''-'' \<notin> set (titleWord n i w)"
  by (simp add: titleWord_def js_includes_char capitalize_hyphen)

lemma js_join_free:
  "c \<notin> set sep \<Longrightarrow> \<forall>p \<in> set ps. c \<notin> set p \<Longrightarrow> c \<notin> set (js_join sep ps)"
  by (induction sep ps rule: js_join.induct) auto

lemma capitalize_join_head:
  "capitalize (js_join '' '' (capitalize t # rest)) = js_join '' '' (capitalize t # rest)"
proof (cases rest)
  case Nil
  then show ?thesis by (simp add: capitalize_idem)
next
  case (Cons r rs)
  then show ?thesis
  proof (cases t)
    case Nil
    then show ?thesis using Cons by (simp add: capitalize_def toUpperCaseChar_def)
  next
    case (Cons a as)
    then show ?thesis using \<open>rest = r # rs\<close> by (simp add: capitalize_def toUpperCaseChar_idem)
  qed
qed

lemma titleWords_head:
  "array \<noteq> [] \<Longrightarrow> \<exists>rest. titleWords array = capitalize (hd array) # rest"
  by (cases array) (simp_all add: titleWords_def titleWord_def)

lemma titleWords_free:
  assumes "\<forall>w \<in> set array. CHR ''-'' \<notin> set w"
  shows "\<forall>p \<in> set (titleWords array). CHR ''-'' \<notin> set p"
  using assms by (auto simp: titleWords_def in_set_enumerate_eq titleWord_hyphen_free)

lemma toSmartTitleCase_fixed:
  assumes free: "CHR ''-'' \<notin> set t" and cap: "capitalize t = t"
  shows "toSmartTitleCase t = t"
proof -
  have sp: "js_split (CHR ''-'') t = [t]" using free by (rule js_split_none)
  then have cn: "cleanName (extractCategoryFromPath t) = t"
    by (simp add: extractCategoryFromPath_def)
  show ?thesis
    by (simp add: toSmartTitleCase_def cn sp titleWord_def cap)
qed

lemma use_not_category:
  assumes "startsWith c ''use''"
  shows "cleanName (extractCategoryFromPath c) = c"
proof -
  from assms obtain r where c: "c = ''use'' @ r"
    by (metis append_take_drop_id startsWith_def)
  obtain p ps where sp: "js_split (CHR ''-'') r = p # ps"
    using js_split_not_Nil [of "CHR ''-''" r] by (cases "js_split (CHR ''-'') r") auto
  have "hd (js_split (CHR ''-'') c) = ''use'' @ p"
    using c sp by simp
  then have "toLowerCase (hd (js_split (CHR ''-'') c)) \<notin> set CATEGORY_PREFIXES"
    by (simp add: toLowerCase_def toLowerCaseChar_def CATEGORY_PREFIXES_def)
  then show ?thesis by (simp add: extractCategoryFromPath_def Let_def)
qed

lemma toSmartTitleCase_idem: "toSmartTitleCase (toSmartTitleCase s) = toSmartTitleCase s"
proof -
  define c where "c = cleanName (extractCategoryFromPath s)"
  consider (use) "startsWith c ''use'' \<and> \<not> startsWith c ''user''"
    | (jq) "\<not> (startsWith c ''use'' \<and> \<not> startsWith c ''user'')" "c = ''jQuery''"
    | (main) "\<not> (startsWith c ''use'' \<and> \<not> startsWith c ''user'')" "c \<noteq> ''jQuery''"
    by blast
  then show ?thesis
  proof cases
    case use
    then have 1: "toSmartTitleCase s = c" by (simp add: toSmartTitleCase_def c_def)
    have "cleanName (extractCategoryFromPath c) = c" using use use_not_category by blast
    then have "toSmartTitleCase c = c" using use by (simp add: toSmartTitleCase_def)
    with 1 show ?thesis by simp
  next
    case jq
    then have 1: "toSmartTitleCase s = ''jQuery''"
      by (simp add: toSmartTitleCase_def c_def Let_def)
    have "toSmartTitleCase ''jQuery'' = ''jQuery''"
      by (simp add: toSmartTitleCase_def extractCategoryFromPath_def startsWith_def)
    with 1 show ?thesis by simp
  next
    case main
    define array where "array = js_split (CHR ''-'') c"
    have 1: "toSmartTitleCase s = js_join '' '' (titleWords array)"
      using main by (auto simp add: toSmartTitleCase_def c_def array_def titleWords_def Let_def)
    have ne: "array \<noteq> []" by (simp add: array_def js_split_not_Nil)
    have "\<forall>w \<in> set array. CHR ''-'' \<notin> set w"
      using js_split_tokens by (auto simp: array_def)
    then have "\<forall>p \<in> set (titleWords array). CHR ''-'' \<notin> set p" by (rule titleWords_free)
    then have free: "CHR ''-'' \<notin> set (js_join '' '' (titleWords array))"
      by (intro js_join_free) auto
    obtain rest where "titleWords array = capitalize (hd array) # rest"
      using titleWords_head [OF ne] by blast
    then have "capitalize (js_join '' '' (titleWords array)) = js_join '' '' (titleWords array)"
      by (simp only: capitalize_join_head)
    with free have "toSmartTitleCase (js_join '' '' (titleWords array)) = js_join '' '' (titleWords array)"
      by (rule toSmartTitleCase_fixed)
    with 1 show ?thesis by simp
  qed
qed

lemma toSmartTitleCase_branch_dead:
  "toSmartTitleCase s = toSmartTitleCase_without_hyphen_branch s"
proof -
  have eq: "map (\<lambda>(index, word). titleWord n index word) (enumerate 0 (js_split (CHR ''-'') c)) =
        map (\<lambda>(index, word). titleWord_without_hyphen_branch n index word)
            (enumerate 0 (js_split (CHR ''-'') c))" for n c
  proof (rule map_cong [OF refl])
    fix x assume "x \<in> set (enumerate 0 (js_split (CHR ''-'') c))"
    then have "snd x \<in> set (js_split (CHR ''-'') c)"
      using nth_mem [of "fst x" "js_split (CHR ''-'') c"] by (auto simp: in_set_enumerate_eq)
    then have "\<not> js_includes (snd x) ''-''"
      using js_split_tokens by (simp add: js_includes_char)
    then show "(case x of (index, word) \<Rightarrow> titleWord n index word) =
               (case x of (index, word) \<Rightarrow> titleWord_without_hyphen_branch n index word)"
      by (cases x) (simp add: titleWord_def titleWord_without_hyphen_branch_def)
  qed
  show ?thesis
    by (simp only: toSmartTitleCase_def toSmartTitleCase_without_hyphen_branch_def Let_def eq)
qed

text \<open>
  Claim C5. For every input whose clean name does not take the \<open>use\<close>-prefix exit,
  formatting the formatted title again gives the same title.
\<close>

theorem toSmartTitleCase_idempotent:
  "\<not> (startsWith (cleanName (extractCategoryFromPath s)) ''use'' \<and>
      \<not> startsWith (cleanName (extractCategoryFromPath s)) ''user'') \<Longrightarrow>
   toSmartTitleCase (toSmartTitleCase s) = toSmartTitleCase s"
  by (rule toSmartTitleCase_idem)

theorem toSmartTitleCase_idempotent_witness:
  "\<not> (startsWith (cleanName (extractCategoryFromPath ''fund-introduction-to-back-end'')) ''use'' \<and>
      \<not> startsWith (cleanName (extractCategoryFromPath ''fund-introduction-to-back-end'')) ''user'') \<and>
   toSmartTitleCase ''fund-introduction-to-back-end'' = ''Introduction to Back End'' \<and>
   toSmartTitleCase ''Introduction to Back End'' = ''Introduction to Back End''"
proof -
  have cn: "cleanName (extractCategoryFromPath ''fund-introduction-to-back-end'') =
      ''introduction-to-back-end''"
    by code_simp
  have h: "\<not> (startsWith (cleanName (extractCategoryFromPath ''fund-introduction-to-back-end'')) ''use'' \<and>
      \<not> startsWith (cleanName (extractCategoryFromPath ''fund-introduction-to-back-end'')) ''user'')"
    by (simp add: cn startsWith_def)
  have v: "toSmartTitleCase ''fund-introduction-to-back-end'' = ''Introduction to Back End''"
    by code_simp
  show ?thesis
    using h v toSmartTitleCase_idempotent [OF h] by simp
qed

text \<open>
  Claim C10. No token of the split on \<open>-\<close> contains a \<open>-\<close>, so the branch of
  \<open>toSmartTitleCase\<close> for tokens with a further hyphen is never taken: the function
  equals the one without that branch on every input.
\<close>

theorem toSmartTitleCase_hyphen_branch_unreachable:
  "(\<forall>word \<in> set (js_split (CHR ''-'') (cleanName (extractCategoryFromPath s))).
      \<not> js_includes word ''-'') \<and>
   toSmartTitleCase s = toSmartTitleCase_without_hyphen_branch s"
  using js_split_tokens [of _ "CHR ''-''" "cleanName (extractCategoryFromPath s)"]
  by (simp add: js_includes_char toSmartTitleCase_branch_dead)

theorem toSmartTitleCase_hyphen_branch_unreachable_witness:
  "\<not> js_includes ''a'' ''-'' \<and> \<not> js_includes ''b'' ''-'' \<and> \<not> js_includes ''c'' ''-'' \<and>
   toSmartTitleCase ''db-a-b-c'' = toSmartTitleCase_without_hyphen_branch ''db-a-b-c''"
proof -
  have "js_split (CHR ''-'') (cleanName (extractCategoryFromPath ''db-a-b-c'')) =
      [''a'', ''b'', ''c'']"
    by code_simp
  then show ?thesis
    using toSmartTitleCase_hyphen_branch_unreachable [of "''db-a-b-c''"] by simp
qed

section \<open>Sorter: order, idempotence and buckets\<close>

lemma codeUnitCompare_sym: "(codeUnitCompare a b < 0) = (0 < codeUnitCompare b a)"
  by (induction a b rule: codeUnitCompare.induct) simp_all

lemma codeUnitCompare_trans:
  "codeUnitCompare a b \<le> 0 \<Longrightarrow> codeUnitCompare b c \<le> 0 \<Longrightarrow> codeUnitCompare a c \<le> 0"
proof (induction a b arbitrary: c rule: codeUnitCompare.induct)
  case 1
  then show ?case by simp
next
  case (2 y ys)
  then show ?case by (cases c) simp_all
next
  case (3 x xs)
  then show ?case by simp
next
  case (4 x xs y ys)
  show ?case
  proof (cases c)
    case Nil
    with 4(3) show ?thesis by simp
  next
    case (Cons z zs)
    define nx ny nz where "nx = (of_char x :: nat)" and "ny = (of_char y :: nat)"
      and "nz = (of_char z :: nat)"
    from 4(2) have xy: "nx < ny \<or> (nx = ny \<and> codeUnitCompare xs ys \<le> 0)"
      by (simp add: nx_def ny_def split: if_splits)
    from 4(3) Cons have yz: "ny < nz \<or> (ny = nz \<and> codeUnitCompare ys zs \<le> 0)"
      by (simp add: nz_def ny_def split: if_splits)
    from xy yz consider "nx < nz"
      | "nx = ny" "ny = nz" "codeUnitCompare xs ys \<le> 0" "codeUnitCompare ys zs \<le> 0"
      by linarith
    then show ?thesis
    proof cases
      case 1
      then show ?thesis by (simp add: Cons nx_def nz_def)
    next
      case 2
      then have "codeUnitCompare xs zs \<le> 0"
        using "4.IH" [of zs] by (simp add: nx_def ny_def)
      with 2 show ?thesis by (simp add: Cons nx_def ny_def nz_def)
    qed
  qed
qed

lemma codeUnitCompare_consistent: "consistentComparator codeUnitCompare"
  unfolding consistentComparator_def
  using codeUnitCompare_sym codeUnitCompare_trans by blast

lemma compareItems_priority:
  "compareItems lc a b \<le> 0 \<Longrightarrow> getPriority (title a) \<le> getPriority (title b)"
  by (auto simp: compareItems_def Let_def split: if_splits)

lemma compareItems_total:
  assumes "consistentComparator lc"
  shows "\<not> compareItems lc a b \<le> 0 \<Longrightarrow> compareItems lc b a \<le> 0"
proof -
  have sym: "(lc s t < 0) = (0 < lc t s)" for s t
    using assms by (simp add: consistentComparator_def)
  assume "\<not> compareItems lc a b \<le> 0"
  then show ?thesis
    using sym [of "title b" "title a"]
    by (auto simp: compareItems_def Let_def split: if_splits option.splits)
qed

lemma compareItems_trans:
  assumes "consistentComparator lc"
    and ab: "compareItems lc a b \<le> 0" and bc: "compareItems lc b c \<le> 0"
  shows "compareItems lc a c \<le> 0"
proof -
  have tr: "lc s t \<le> 0 \<Longrightarrow> lc t u \<le> 0 \<Longrightarrow> lc s u \<le> 0" for s t u
    using assms(1) unfolding consistentComparator_def by blast
  define pa pb pc where "pa = getPriority (title a)" and "pb = getPriority (title b)"
    and "pc = getPriority (title c)"
  show ?thesis
  proof (cases "pa = 999 \<and> pb = 999 \<and> pc = 999")
    case True
    then show ?thesis
      using ab bc tr [of "title a" "title b" "title c"]
      by (auto simp: compareItems_def Let_def pa_def pb_def pc_def split: option.splits)
  next
    case False
    have "pa \<le> pb" "pb \<le> pc"
      using ab bc compareItems_priority by (simp_all add: pa_def pb_def pc_def)
    with False show ?thesis
      using ab bc
      by (auto simp: compareItems_def Let_def pa_def pb_def pc_def split: if_splits)
  qed
qed

lemma set_js_sort_insert: "set (js_sort_insert cmp x ys) = insert x (set ys)"
  by (induction ys) auto

lemma mset_js_sort_insert: "mset (js_sort_insert cmp x ys) = add_mset x (mset ys)"
  by (induction ys) auto

lemma mset_js_sort: "mset (js_sort cmp xs) = mset xs"
  by (induction xs) (auto simp: mset_js_sort_insert)

lemma sorted_js_sort_insert:
  assumes total: "\<And>a b. \<not> cmp a b \<le> 0 \<Longrightarrow> cmp b a \<le> 0"
    and trans: "\<And>a b c. cmp a b \<le> 0 \<Longrightarrow> cmp b c \<le> 0 \<Longrightarrow> cmp a c \<le> 0"
  shows "sorted_wrt (\<lambda>a b. cmp a b \<le> 0) ys \<Longrightarrow>
         sorted_wrt (\<lambda>a b. cmp a b \<le> 0) (js_sort_insert cmp x ys)"
proof (induction ys)
  case Nil
  then show ?case by simp
next
  case (Cons y ys)
  show ?case
  proof (cases "cmp x y \<le> 0")
    case True
    then have "\<forall>z \<in> set ys. cmp x z \<le> 0"
      using Cons.prems trans by auto
    with True Cons.prems show ?thesis by simp
  next
    case False
    then have "cmp y x \<le> 0" by (rule total)
    with False Cons show ?thesis by (simp add: set_js_sort_insert)
  qed
qed

lemma sorted_js_sort:
  assumes total: "\<And>a b. \<not> cmp a b \<le> 0 \<Longrightarrow> cmp b a \<le> 0"
    and trans: "\<And>a b c. cmp a b \<le> 0 \<Longrightarrow> cmp b c \<le> 0 \<Longrightarrow> cmp a c \<le> 0"
  shows "sorted_wrt (\<lambda>a b. cmp a b \<le> 0) (js_sort cmp xs)"
  by (induction xs) (simp_all add: sorted_js_sort_insert [OF total trans])

lemma js_sort_sorted_id:
  "sorted_wrt (\<lambda>a b. cmp a b \<le> 0) xs \<Longrightarrow> js_sort cmp xs = xs"
proof (induction xs)
  case Nil
  then show ?case by simp
next
  case (Cons x xs)
  then show ?case by (cases xs) simp_all
qed

lemma sorted_sortNavigationItems:
  assumes "consistentComparator lc"
  shows "sorted_wrt (\<lambda>a b. compareItems lc a b \<le> 0) (sortNavigationItems lc items)"
  unfolding sortNavigationItems_def
  by (rule sorted_js_sort) (auto intro: compareItems_total [OF assms] compareItems_trans [OF assms])

lemma sortNavigationItems_idem:
  assumes "consistentComparator lc"
  shows "sortNavigationItems lc (sortNavigationItems lc items) = sortNavigationItems lc items"
  using sorted_sortNavigationItems [OF assms, of items] js_sort_sorted_id
  unfolding sortNavigationItems_def by blast

lemma sortNavigationItems_priority_order:
  assumes "consistentComparator lc"
    and "i < length (sortNavigationItems lc items)" and "j < length (sortNavigationItems lc items)"
    and "getPriority (title (sortNavigationItems lc items ! i)) <
         getPriority (title (sortNavigationItems lc items ! j))"
  shows "i < j"
proof (rule ccontr)
  assume "\<not> i < j"
  with assms(4) have "j < i" by (cases "i = j") auto
  then have "compareItems lc (sortNavigationItems lc items ! j) (sortNavigationItems lc items ! i) \<le> 0"
    using sorted_wrt_nth_less [OF sorted_sortNavigationItems [OF assms(1), of items] _ assms(2)]
    by blast
  then show False using assms(4) compareItems_priority by fastforce
qed

lemma js_sort_insert_stable:
  assumes trans: "\<And>a b c. cmp a b \<le> 0 \<Longrightarrow> cmp b c \<le> 0 \<Longrightarrow> cmp a c \<le> 0"
  shows "filter (\<lambda>y. cmp k y \<le> 0 \<and> cmp y k \<le> 0) (js_sort_insert cmp x ys) =
         (if cmp k x \<le> 0 \<and> cmp x k \<le> 0
          then x # filter (\<lambda>y. cmp k y \<le> 0 \<and> cmp y k \<le> 0) ys
          else filter (\<lambda>y. cmp k y \<le> 0 \<and> cmp y k \<le> 0) ys)"
proof (induction ys)
  case Nil
  show ?case by simp
next
  case (Cons y ys)
  show ?case
  proof (cases "cmp x y \<le> 0")
    case True
    then show ?thesis by simp
  next
    case False
    have "\<not> ((cmp k x \<le> 0 \<and> cmp x k \<le> 0) \<and> (cmp k y \<le> 0 \<and> cmp y k \<le> 0))"
      using False trans [of x k y] by blast
    with False Cons.IH show ?thesis by auto
  qed
qed

lemma js_sort_stable:
  assumes trans: "\<And>a b c. cmp a b \<le> 0 \<Longrightarrow> cmp b c \<le> 0 \<Longrightarrow> cmp a c \<le> 0"
  shows "filter (\<lambda>y. cmp k y \<le> 0 \<and> cmp y k \<le> 0) (js_sort cmp xs) =
         filter (\<lambda>y. cmp k y \<le> 0 \<and> cmp y k \<le> 0) xs"
proof (induction xs)
  case Nil
  show ?case by simp
next
  case (Cons x xs)
  have "filter (\<lambda>y. cmp k y \<le> 0 \<and> cmp y k \<le> 0) (js_sort_insert cmp x (js_sort cmp xs)) =
         (if cmp k x \<le> 0 \<and> cmp x k \<le> 0
          then x # filter (\<lambda>y. cmp k y \<le> 0 \<and> cmp y k \<le> 0) (js_sort cmp xs)
          else filter (\<lambda>y. cmp k y \<le> 0 \<and> cmp y k \<le> 0) (js_sort cmp xs))"
    by (rule js_sort_insert_stable) (rule trans)
  then show ?case by (simp add: Cons.IH)
qed

lemma sortNavigationItems_stable:
  assumes "consistentComparator lc"
  shows "filter (\<lambda>y. compareItems lc k y \<le> 0 \<and> compareItems lc y k \<le> 0)
           (sortNavigationItems lc items) =
         filter (\<lambda>y. compareItems lc k y \<le> 0 \<and> compareItems lc y k \<le> 0) items"
  unfolding sortNavigationItems_def
  by (rule js_sort_stable) (rule compareItems_trans [OF assms])

lemma startsWith_map: "startsWith s k \<Longrightarrow> startsWith (map f s) (map f k)"
  by (metis length_map startsWith_def take_map)

lemma js_includes_map: "js_includes s k \<Longrightarrow> js_includes (map f s) (map f k)"
proof (induction s)
  case Nil
  then show ?case by simp
next
  case (Cons a s)
  from Cons.prems have "startsWith (a # s) k \<or> js_includes s k" by simp
  then show ?case
  proof
    assume "startsWith (a # s) k"
    then have "startsWith (map f (a # s)) (map f k)" by (rule startsWith_map)
    then show ?thesis by simp
  next
    assume "js_includes s k"
    then have "js_includes (map f s) (map f k)" by (rule Cons.IH)
    then show ?thesis by simp
  qed
qed

lemma vocabulary_priority: "js_includes t ''vocabulary'' \<Longrightarrow> getPriority t = 1"
proof -
  assume "js_includes t ''vocabulary''"
  then have "js_includes (toLowerCase t) (toLowerCase ''vocabulary'')"
    unfolding toLowerCase_def by (rule js_includes_map)
  moreover have "toLowerCase ''vocabulary'' = ''vocabulary''" by code_simp
  ultimately show ?thesis by (simp add: getPriority_def)
qed

lemma default_bucket_ties:
  "getPriority (title a) = 99 \<Longrightarrow> getPriority (title b) = 99 \<Longrightarrow> compareItems lc a b = 0"
  by (simp add: compareItems_def)

text \<open>
  Claim C1. Two siblings of the default bucket should be ordered by \<open>order\<close>, and by
  title when neither has one. The comparator reaches that code only when both priorities
  are 999, while the default bucket is 99: two default siblings compare equal and keep
  their input order, here order 2 before order 1, and \<open>Routing\<close> before \<open>Caching\<close>.
\<close>

theorem sortNavigationItems_default_bucket_ignores_order:
  "getPriority ''Routing'' = 99 \<and> getPriority ''Caching'' = 99 \<and>
   sortNavigationItems localeCompare
     [leaf ''Routing'' ''/routing'' (Some 2), leaf ''Caching'' ''/caching'' (Some 1)] =
     [leaf ''Routing'' ''/routing'' (Some 2), leaf ''Caching'' ''/caching'' (Some 1)] \<and>
   sortNavigationItems localeCompare
     [leaf ''Routing'' ''/routing'' None, leaf ''Caching'' ''/caching'' None] =
     [leaf ''Routing'' ''/routing'' None, leaf ''Caching'' ''/caching'' None]"
proof -
  have p: "getPriority ''Routing'' = 99" "getPriority ''Caching'' = 99" by code_simp+
  then show ?thesis
    by (simp add: sortNavigationItems_def compareItems_def leaf_def)
qed

text \<open>
  Claim C6, as stated, fails: a title containing \<open>bonus\<close> that also contains a keyword of
  an earlier bucket (here \<open>setup\<close>, bucket 2) is sorted before a default-bucket title.
\<close>

theorem sortNavigationItems_bonus_counterexample:
  "js_includes ''bonus setup'' ''bonus'' \<and> getPriority ''Caching'' = 99 \<and>
   sortNavigationItems codeUnitCompare
     [leaf ''Caching'' ''/caching'' None, leaf ''bonus setup'' ''/bonus-setup'' None] =
     [leaf ''bonus setup'' ''/bonus-setup'' None, leaf ''Caching'' ''/caching'' None]"
proof -
  have p: "getPriority ''Caching'' = 99" "getPriority ''bonus setup'' = 2"
    "js_includes ''bonus setup'' ''bonus''"
    by code_simp+
  have "sortNavigationItems codeUnitCompare
     [leaf ''Caching'' ''/caching'' None, leaf ''bonus setup'' ''/bonus-setup'' None] =
     [leaf ''bonus setup'' ''/bonus-setup'' None, leaf ''Caching'' ''/caching'' None]"
    by (simp add: sortNavigationItems_def compareItems_def leaf_def p(1,2))
  with p show ?thesis by blast
qed

text \<open>
  Claim C6, amended. For a consistent collation, sorting a sorted list changes nothing, the
  result is a permutation of the input, every item whose title contains \<open>vocabulary\<close>
  precedes every item of the default bucket (priority 99), and every item of the default
  bucket precedes every item of the bottom bucket (priority 9999: the title contains
  \<open>bonus\<close>, \<open>libraries\<close>, \<open>optional\<close> or \<open>frameworks\<close> and no keyword of an earlier
  bucket).
\<close>

theorem sortNavigationItems_idempotent_buckets:
  assumes "consistentComparator localeCompare"
  shows "sortNavigationItems localeCompare (sortNavigationItems localeCompare items) =
           sortNavigationItems localeCompare items \<and>
         mset (sortNavigationItems localeCompare items) = mset items \<and>
         (\<forall>i j. i < length (sortNavigationItems localeCompare items) \<and>
                j < length (sortNavigationItems localeCompare items) \<and>
                js_includes (title (sortNavigationItems localeCompare items ! i)) ''vocabulary'' \<and>
                getPriority (title (sortNavigationItems localeCompare items ! j)) = 99
                \<longrightarrow> i < j) \<and>
         (\<forall>i j. i < length (sortNavigationItems localeCompare items) \<and>
                j < length (sortNavigationItems localeCompare items) \<and>
                getPriority (title (sortNavigationItems localeCompare items ! i)) = 99 \<and>
                getPriority (title (sortNavigationItems localeCompare items ! j)) = 9999
                \<longrightarrow> i < j)"
proof (intro conjI allI impI)
  show "sortNavigationItems localeCompare (sortNavigationItems localeCompare items) =
      sortNavigationItems localeCompare items"
    using assms by (rule sortNavigationItems_idem)
  show "mset (sortNavigationItems localeCompare items) = mset items"
    by (simp add: sortNavigationItems_def mset_js_sort)
next
  fix i j
  assume a: "i < length (sortNavigationItems localeCompare items) \<and>
      j < length (sortNavigationItems localeCompare items) \<and>
      js_includes (title (sortNavigationItems localeCompare items ! i)) ''vocabulary'' \<and>
      getPriority (title (sortNavigationItems localeCompare items ! j)) = 99"
  then have "getPriority (title (sortNavigationItems localeCompare items ! i)) = 1"
    by (simp add: vocabulary_priority)
  with a show "i < j"
    using sortNavigationItems_priority_order [OF assms, of i items j] by simp
next
  fix i j
  assume a: "i < length (sortNavigationItems localeCompare items) \<and>
      j < length (sortNavigationItems localeCompare items) \<and>
      getPriority (title (sortNavigationItems localeCompare items ! i)) = 99 \<and>
      getPriority (title (sortNavigationItems localeCompare items ! j)) = 9999"
  then show "i < j"
    using sortNavigationItems_priority_order [OF assms, of i items j] by simp
qed

theorem sortNavigationItems_idempotent_buckets_witness:
  "consistentComparator codeUnitCompare \<and>
   sortNavigationItems codeUnitCompare
     [leaf ''Bonus Track'' ''/b'' None, leaf ''Caching'' ''/c'' None, leaf ''vocabulary'' ''/v'' None] =
     [leaf ''vocabulary'' ''/v'' None, leaf ''Caching'' ''/c'' None, leaf ''Bonus Track'' ''/b'' None] \<and>
   sortNavigationItems codeUnitCompare
     [leaf ''vocabulary'' ''/v'' None, leaf ''Caching'' ''/c'' None, leaf ''Bonus Track'' ''/b'' None] =
     [leaf ''vocabulary'' ''/v'' None, leaf ''Caching'' ''/c'' None, leaf ''Bonus Track'' ''/b'' None] \<and>
   js_includes ''vocabulary'' ''vocabulary'' \<and> getPriority ''Caching'' = 99 \<and>
   getPriority ''Bonus Track'' = 9999"
proof -
  have p: "js_includes ''vocabulary'' ''vocabulary''" "getPriority ''Caching'' = 99"
    "getPriority ''Bonus Track'' = 9999"
    by code_simp+
  have q: "getPriority ''vocabulary'' = 1" by code_simp
  have v: "sortNavigationItems codeUnitCompare
     [leaf ''Bonus Track'' ''/b'' None, leaf ''Caching'' ''/c'' None, leaf ''vocabulary'' ''/v'' None] =
     [leaf ''vocabulary'' ''/v'' None, leaf ''Caching'' ''/c'' None, leaf ''Bonus Track'' ''/b'' None]"
    by (simp add: sortNavigationItems_def compareItems_def leaf_def p(2,3) q)
  have "sortNavigationItems codeUnitCompare (sortNavigationItems codeUnitCompare
     [leaf ''Bonus Track'' ''/b'' None, leaf ''Caching'' ''/c'' None, leaf ''vocabulary'' ''/v'' None]) =
     sortNavigationItems codeUnitCompare
     [leaf ''Bonus Track'' ''/b'' None, leaf ''Caching'' ''/c'' None, leaf ''vocabulary'' ''/v'' None]"
    using sortNavigationItems_idempotent_buckets [OF codeUnitCompare_consistent] by (rule conjunct1)
  then have "sortNavigationItems codeUnitCompare
     [leaf ''vocabulary'' ''/v'' None, leaf ''Caching'' ''/c'' None, leaf ''Bonus Track'' ''/b'' None] =
     [leaf ''vocabulary'' ''/v'' None, leaf ''Caching'' ''/c'' None, leaf ''Bonus Track'' ''/b'' None]"
    by (simp only: v)
  with v p codeUnitCompare_consistent show ?thesis by blast
qed

section \<open>Categorizer: category codes first, and the partition\<close>

lemma lower_code:
  "65 \<le> (of_char c :: nat) \<Longrightarrow> (of_char c :: nat) \<le> 90 \<Longrightarrow>
     (of_char (char_of ((of_char c :: nat) + 32)) :: nat) = of_char c + 32"
  by simp

lemma toLowerCaseChar_idem: "toLowerCaseChar (toLowerCaseChar c) = toLowerCaseChar c"
  using lower_code [of c] by (auto simp add: toLowerCaseChar_def Let_def simp del: of_char_of)

lemma toLowerCaseChar_fixes:
  assumes "(of_char d :: nat) < 65"
  shows "(toLowerCaseChar c = d) = (c = d)"
proof
  assume eq: "toLowerCaseChar c = d"
  show "c = d"
  proof (cases "65 \<le> (of_char c :: nat) \<and> (of_char c :: nat) \<le> 90")
    case True
    then have "(of_char (toLowerCaseChar c) :: nat) = of_char c + 32"
      using lower_code [of c] by (simp add: toLowerCaseChar_def Let_def del: of_char_of)
    with eq assms True show ?thesis by simp
  next
    case False
    with eq show ?thesis by (auto simp: toLowerCaseChar_def Let_def)
  qed
next
  assume "c = d"
  with assms show "toLowerCaseChar c = d" by (simp add: toLowerCaseChar_def Let_def)
qed

lemma toLowerCaseChar_slash: "(toLowerCaseChar c = CHR ''/'') = (c = CHR ''/'')"
  by (rule toLowerCaseChar_fixes) simp

lemma toLowerCaseChar_hyphen: "(toLowerCaseChar c = CHR ''-'') = (c = CHR ''-'')"
  by (rule toLowerCaseChar_fixes) simp

lemma toLowerCase_idem: "toLowerCase (toLowerCase s) = toLowerCase s"
  by (simp add: toLowerCase_def toLowerCaseChar_idem)

lemma js_split_map:
  assumes "\<And>x. (f x = c) = (x = c)"
  shows "js_split c (map f s) = map (map f) (js_split c s)"
proof (induction s)
  case Nil
  show ?case by simp
next
  case (Cons x xs)
  obtain p ps where sp: "js_split c xs = p # ps"
    using js_split_not_Nil [of c xs] by (cases "js_split c xs") auto
  with Cons assms show ?case by simp
qed

lemma js_split_toLowerCase_slash:
  "js_split (CHR ''/'') (toLowerCase s) = map toLowerCase (js_split (CHR ''/'') s)"
  unfolding toLowerCase_def
  using js_split_map [of toLowerCaseChar "CHR ''/''" s] toLowerCaseChar_slash
  by (simp add: toLowerCase_def [abs_def])

lemma js_split_toLowerCase_hyphen:
  "js_split (CHR ''-'') (toLowerCase s) = map toLowerCase (js_split (CHR ''-'') s)"
  unfolding toLowerCase_def
  using js_split_map [of toLowerCaseChar "CHR ''-''" s] toLowerCaseChar_hyphen
  by (simp add: toLowerCase_def [abs_def])

lemma category_toLowerCase:
  "category (extractCategoryFromPath (toLowerCase s)) = category (extractCategoryFromPath s)"
  by (simp add: extractCategoryFromPath_def Let_def js_split_toLowerCase_hyphen hd_map
      js_split_not_Nil toLowerCase_idem)

lemma category_in_prefixes:
  "category (extractCategoryFromPath s) = Some c \<Longrightarrow> c \<in> set CATEGORY_PREFIXES"
  by (auto simp: extractCategoryFromPath_def Let_def split: if_splits)

lemma prefix_has_section:
  "c \<in> set CATEGORY_PREFIXES \<Longrightarrow> c \<noteq> [] \<and> (\<exists>s. categorySection c = Some s)"
  by (auto simp: CATEGORY_PREFIXES_def categorySection_def)

lemma categoryFromSegments_find:
  "find (\<lambda>segment. category (extractCategoryFromPath segment) \<noteq> None) segs = Some seg \<Longrightarrow>
   category (extractCategoryFromPath seg) = Some c \<Longrightarrow>
   categoryFromSegments segs = categorySection c"
proof (induction segs)
  case Nil
  then show ?case by simp
next
  case (Cons a segs)
  show ?case
  proof (cases "category (extractCategoryFromPath a)")
    case None
    with Cons show ?thesis by simp
  next
    case (Some d)
    with Cons.prems have "a = seg" "d = c" by auto
    with Some prefix_has_section [OF category_in_prefixes [OF Cons.prems(2)]]
    show ?thesis by auto
  qed
qed

lemma find_map_toLowerCase:
  "find (\<lambda>segment. category (extractCategoryFromPath segment) \<noteq> None) (map toLowerCase segs) =
   map_option toLowerCase
     (find (\<lambda>segment. category (extractCategoryFromPath segment) \<noteq> None) segs)"
  by (induction segs) (simp_all add: category_toLowerCase)

lemma filter_nonempty_toLowerCase:
  "filter (\<lambda>segment. length segment > 0) (map toLowerCase segs) =
   map toLowerCase (filter (\<lambda>segment. length segment > 0) segs)"
  by (induction segs) (simp_all add: toLowerCase_def)

lemma categorizeItem_by_code:
  assumes "find (\<lambda>segment. category (extractCategoryFromPath segment) \<noteq> None)
             (filter (\<lambda>segment. length segment > 0) (js_split (CHR ''/'') (href item))) = Some seg"
    and "category (extractCategoryFromPath seg) = Some c"
  shows "categorySection c = Some (categorizeItem item)"
proof -
  let ?P = "\<lambda>segment. category (extractCategoryFromPath segment) \<noteq> None"
  let ?segs = "filter (\<lambda>segment. length segment > 0) (js_split (CHR ''/'') (toLowerCase (href item)))"
  have "find ?P ?segs = Some (toLowerCase seg)"
    by (simp only: js_split_toLowerCase_slash filter_nonempty_toLowerCase find_map_toLowerCase
        assms(1) option.map)
  moreover have "category (extractCategoryFromPath (toLowerCase seg)) = Some c"
    using assms(2) by (simp add: category_toLowerCase)
  ultimately have "categoryFromSegments ?segs = categorySection c"
    by (rule categoryFromSegments_find)
  moreover obtain s where "categorySection c = Some s"
    using prefix_has_section [OF category_in_prefixes [OF assms(2)]] by blast
  ultimately show ?thesis by (simp add: categorizeItem_def Let_def)
qed

lemma categorySection_key:
  "categorySection c = Some s \<Longrightarrow> s \<in> set (map fst sectionTable)"
  by (auto simp: categorySection_def sectionTable_def split: if_splits)

lemma categoryFromSegments_key:
  "categoryFromSegments segs = Some s \<Longrightarrow> s \<in> set (map fst sectionTable)"
proof (induction segs)
  case Nil
  then show ?case by simp
next
  case (Cons a segs)
  then show ?case
    by (auto split: option.splits if_splits dest: categorySection_key)
qed

lemma parentSection_key:
  "parentSection path lowTitle = Some s \<Longrightarrow> s \<in> set (map fst sectionTable)"
  unfolding parentSection_def sectionTable_def
  by (simp split: if_splits)

lemma pageSection_key: "pageSection path lowTitle \<in> set (map fst sectionTable)"
  unfolding pageSection_def sectionTable_def
  by simp

lemma categorizeItem_key: "categorizeItem item \<in> set (map fst sectionTable)"
  unfolding categorizeItem_def Let_def
  using categoryFromSegments_key parentSection_key pageSection_key
  by (auto split: option.splits)

lemma inCategory_Cons:
  "inCategory key (item # items) =
     (if categorizeItem item = key then item # inCategory key items else inCategory key items)"
  by (simp add: inCategory_def)

lemma categorizeAll_filter:
  "categorizeAll cats items =
     Inr \<lparr>fundamentals = fundamentals cats @ inCategory ''fundamentals'' items,
          sql = sql cats @ inCategory ''sql'' items,
          nosql = nosql cats @ inCategory ''nosql'' items,
          databases = databases cats @ inCategory ''databases'' items,
          projects = projects cats @ inCategory ''projects'' items,
          utilities = utilities cats @ inCategory ''utilities'' items,
          advanced = advanced cats @ inCategory ''advanced'' items\<rparr>"
proof (induction items arbitrary: cats)
  case Nil
  show ?case by (simp add: inCategory_def)
next
  case (Cons item items)
  have "categorizeItem item \<in> set (map fst sectionTable)" by (rule categorizeItem_key)
  then consider "categorizeItem item = ''fundamentals''" | "categorizeItem item = ''sql''"
    | "categorizeItem item = ''nosql''" | "categorizeItem item = ''databases''"
    | "categorizeItem item = ''projects''" | "categorizeItem item = ''utilities''"
    | "categorizeItem item = ''advanced''"
    by (auto simp: sectionTable_def)
  then show ?case
    by cases (simp_all add: pushCategory_def Cons.IH inCategory_Cons)
qed

lemma mset_inCategory:
  "mset (inCategory ''fundamentals'' items) + mset (inCategory ''sql'' items) +
   mset (inCategory ''nosql'' items) + mset (inCategory ''databases'' items) +
   mset (inCategory ''projects'' items) + mset (inCategory ''utilities'' items) +
   mset (inCategory ''advanced'' items) = mset items"
proof (induction items)
  case Nil
  show ?case by (simp add: inCategory_def)
next
  case (Cons item items)
  have "categorizeItem item \<in> set (map fst sectionTable)" by (rule categorizeItem_key)
  then consider "categorizeItem item = ''fundamentals''" | "categorizeItem item = ''sql''"
    | "categorizeItem item = ''nosql''" | "categorizeItem item = ''databases''"
    | "categorizeItem item = ''projects''" | "categorizeItem item = ''utilities''"
    | "categorizeItem item = ''advanced''"
    by (auto simp: sectionTable_def)
  then show ?case
    using Cons.IH by cases (simp_all add: inCategory_Cons)
qed

lemma categorizeNavigationItems_eq:
  "categorizeNavigationItems items =
     Inr (concat (map (\<lambda>(key, label). pushSection label (inCategory key items)) sectionTable))"
  by (simp add: categorizeNavigationItems_def categorizeAll_filter sectionTable_def)

lemma mset_pushSection: "mset (concat (map sectionItems (pushSection label xs))) = mset xs"
  by (simp add: pushSection_def)

lemma categorizeNavigationItems_mset:
  "mset (concat (map sectionItems
     (concat (map (\<lambda>(key, label). pushSection label (inCategory key items)) sectionTable)))) =
   mset items"
  using mset_inCategory [of items]
  by (simp add: sectionTable_def mset_pushSection add.assoc)

lemma categorizeNavigationItems_titles:
  "distinct (map sectionTitle
     (concat (map (\<lambda>(key, label). pushSection label (inCategory key items)) sectionTable)))"
  by (simp add: sectionTable_def pushSection_def)

text \<open>
  Claim C2, as stated, fails: the loop returns at the first segment with a category code,
  so an href with the segment \<open>db-foo\<close> after a segment \<open>sql-basics\<close> goes to \<open>sql\<close>, not
  to \<open>databases\<close>.
\<close>

theorem categorizeItem_db_segment_counterexample:
  "''db-foo'' \<in> set (filter (\<lambda>segment. length segment > 0)
                        (js_split (CHR ''/'') ''/sql-basics/db-foo'')) \<and>
   category (extractCategoryFromPath ''db-foo'') = Some ''db'' \<and>
   categorySection ''db'' = Some ''databases'' \<and>
   categorizeItem (leaf ''Basics'' ''/sql-basics/db-foo'' None) = ''sql''"
  by code_simp

text \<open>
  Claim C2, amended. When some non-empty path segment of the href carries a category code,
  the item is assigned to the section mapped from the code of the first such segment, whatever
  its title, the rest of its path and its children are; in the output of the Categorizer
  the item is listed in the section of that key.
\<close>

theorem categorizeItem_first_category_code:
  assumes "find (\<lambda>segment. category (extractCategoryFromPath segment) \<noteq> None)
             (filter (\<lambda>segment. length segment > 0) (js_split (CHR ''/'') (href item))) =
           Some segment"
    and "category (extractCategoryFromPath segment) = Some code"
  shows "categorySection code = Some (categorizeItem item) \<and>
         (item \<in> set items \<longrightarrow>
            (\<exists>sections label. categorizeNavigationItems items = Inr sections \<and>
               (categorizeItem item, label) \<in> set sectionTable \<and>
               (\<exists>section \<in> set sections. sectionTitle section = label \<and>
                  item \<in> set (sectionItems section))))"
proof (intro conjI impI)
  show "categorySection code = Some (categorizeItem item)"
    using assms by (rule categorizeItem_by_code)
next
  assume mem: "item \<in> set items"
  obtain label where lab: "(categorizeItem item, label) \<in> set sectionTable"
    using categorizeItem_key [of item] by auto
  have ne: "item \<in> set (inCategory (categorizeItem item) items)"
    using mem by (simp add: inCategory_def)
  then have "NavigationSection label (inCategory (categorizeItem item) items) \<in>
      set (pushSection label (inCategory (categorizeItem item) items))"
    by (auto simp: pushSection_def)
  with lab have "NavigationSection label (inCategory (categorizeItem item) items) \<in>
      set (concat (map (\<lambda>(key, label). pushSection label (inCategory key items)) sectionTable))"
    by force
  with lab ne show "\<exists>sections label. categorizeNavigationItems items = Inr sections \<and>
               (categorizeItem item, label) \<in> set sectionTable \<and>
               (\<exists>section \<in> set sections. sectionTitle section = label \<and>
                  item \<in> set (sectionItems section))"
    unfolding categorizeNavigationItems_eq by (metis NavigationSection.sel)
qed

theorem categorizeItem_first_category_code_witness:
  "find (\<lambda>segment. category (extractCategoryFromPath segment) \<noteq> None)
     (filter (\<lambda>segment. length segment > 0) (js_split (CHR ''/'')
        (href (NavigationItem ''SQL and Docker notes'' ''/guides/DB-foo/mysql''
           (Some [leaf ''Child'' ''/guides/DB-foo/mysql/c'' None]) None None None)))) =
     Some ''DB-foo'' \<and>
   category (extractCategoryFromPath ''DB-foo'') = Some ''db'' \<and>
   categorySection ''db'' = Some ''databases'' \<and>
   categorizeItem (NavigationItem ''SQL and Docker notes'' ''/guides/DB-foo/mysql''
      (Some [leaf ''Child'' ''/guides/DB-foo/mysql/c'' None]) None None None) = ''databases'' \<and>
   categorizeNavigationItems
     [NavigationItem ''SQL and Docker notes'' ''/guides/DB-foo/mysql''
        (Some [leaf ''Child'' ''/guides/DB-foo/mysql/c'' None]) None None None] =
     Inr [NavigationSection ''Databases''
       [NavigationItem ''SQL and Docker notes'' ''/guides/DB-foo/mysql''
          (Some [leaf ''Child'' ''/guides/DB-foo/mysql/c'' None]) None None None]]"
proof -
  define item where "item = NavigationItem ''SQL and Docker notes'' ''/guides/DB-foo/mysql''
      (Some [leaf ''Child'' ''/guides/DB-foo/mysql/c'' None]) None None None"
  have f: "find (\<lambda>segment. category (extractCategoryFromPath segment) \<noteq> None)
     (filter (\<lambda>segment. length segment > 0) (js_split (CHR ''/'') (href item))) = Some ''DB-foo''"
    unfolding item_def by code_simp
  have c: "category (extractCategoryFromPath ''DB-foo'') = Some ''db''" by code_simp
  have s: "categorySection ''db'' = Some ''databases''" by code_simp
  have k: "categorizeItem item = ''databases''"
    using categorizeItem_first_category_code [OF f c, of "[item]"] s by simp
  have n: "categorizeNavigationItems [item] = Inr [NavigationSection ''Databases'' [item]]"
    by (simp add: categorizeNavigationItems_eq inCategory_def k sectionTable_def pushSection_def)
  from f c s k n show ?thesis unfolding item_def by blast
qed

lemma in_sections:
  "(s \<in> set (concat (map (\<lambda>(key, label). pushSection label (inCategory key items)) sectionTable))) =
   (\<exists>key label. (key, label) \<in> set sectionTable \<and> inCategory key items \<noteq> [] \<and>
      s = NavigationSection label (inCategory key items))"
  by (auto simp: pushSection_def split: if_splits)

lemma sectionTable_functional:
  "(key, label) \<in> set sectionTable \<Longrightarrow> (key, label') \<in> set sectionTable \<Longrightarrow> label = label'"
  by (auto simp: sectionTable_def)

lemma sections_unfold:
   "concat (map (\<lambda>(key, label). pushSection label (inCategory key items)) sectionTable) = concat (map (\<lambda>(key, label).
                 if filter (\<lambda>item. categorizeItem item = key) items = [] then []
                 else [NavigationSection label (filter (\<lambda>item. categorizeItem item = key) items)])
               sectionTable)"
  by (rule arg_cong [where f = concat], rule map_cong [OF refl])
    (auto simp: pushSection_def inCategory_def)


text \<open>
  Claim C3. The Categorizer raises nothing and returns, in the fixed order of the sections,
  one section for every key that at least one input item is assigned to, holding exactly the
  input items of that key in their input order. So the item lists of the sections together
  are a permutation of the input, no section is empty, no label occurs twice, and every
  input item is in exactly one section.
\<close>

theorem categorizeNavigationItems_partition:
  "\<exists>sections. categorizeNavigationItems items = Inr sections \<and>
     sections =
       concat (map (\<lambda>(key, label).
                 if filter (\<lambda>item. categorizeItem item = key) items = [] then []
                 else [NavigationSection label (filter (\<lambda>item. categorizeItem item = key) items)])
               sectionTable) \<and>
     mset (concat (map sectionItems sections)) = mset items \<and>
     distinct (map sectionTitle sections) \<and>
     (\<forall>section \<in> set sections. sectionItems section \<noteq> [] \<and>
        (\<exists>key. sectionItems section = filter (\<lambda>item. categorizeItem item = key) items)) \<and>
     (\<forall>item \<in> set items. \<exists>!section. section \<in> set sections \<and> item \<in> set (sectionItems section))"
proof -
  let ?sections = "concat (map (\<lambda>(key, label). pushSection label (inCategory key items)) sectionTable)"
  have 5: "\<forall>section \<in> set ?sections. sectionItems section \<noteq> [] \<and>
        (\<exists>key. sectionItems section = filter (\<lambda>item. categorizeItem item = key) items)"
  proof
    fix s assume "s \<in> set ?sections"
    then obtain key label where "inCategory key items \<noteq> []"
      "s = NavigationSection label (inCategory key items)"
      unfolding in_sections by blast
    then show "sectionItems s \<noteq> [] \<and>
        (\<exists>key. sectionItems s = filter (\<lambda>item. categorizeItem item = key) items)"
      by (auto simp: inCategory_def)
  qed
  have 6: "\<forall>item \<in> set items. \<exists>!section. section \<in> set ?sections \<and> item \<in> set (sectionItems section)"
  proof
    fix item assume mem: "item \<in> set items"
    obtain label where lab: "(categorizeItem item, label) \<in> set sectionTable"
      using categorizeItem_key [of item] by auto
    let ?s = "NavigationSection label (inCategory (categorizeItem item) items)"
    have ne: "item \<in> set (inCategory (categorizeItem item) items)"
      using mem by (simp add: inCategory_def)
    then have "inCategory (categorizeItem item) items \<noteq> []" by auto
    with lab have in_s: "?s \<in> set ?sections" unfolding in_sections by blast
    have uniq: "s = ?s" if "s \<in> set ?sections \<and> item \<in> set (sectionItems s)" for s
    proof -
      from that obtain key lbl where kl: "(key, lbl) \<in> set sectionTable"
        and s: "s = NavigationSection lbl (inCategory key items)"
        unfolding in_sections by blast
      from that s have key: "key = categorizeItem item" by (simp add: inCategory_def)
      with kl lab have "lbl = label" using sectionTable_functional by blast
      with key s show ?thesis by simp
    qed
    show "\<exists>!section. section \<in> set ?sections \<and> item \<in> set (sectionItems section)"
    proof (rule ex1I [of _ ?s])
      show "?s \<in> set ?sections \<and> item \<in> set (sectionItems ?s)"
        using in_s ne by simp
    next
      fix s assume "s \<in> set ?sections \<and> item \<in> set (sectionItems s)"
      then show "s = ?s" by (rule uniq)
    qed
  qed
  show ?thesis
  proof (intro exI conjI)
    show "categorizeNavigationItems items = Inr ?sections" by (rule categorizeNavigationItems_eq)
    show "?sections = concat (map (\<lambda>(key, label).
                 if filter (\<lambda>item. categorizeItem item = key) items = [] then []
                 else [NavigationSection label (filter (\<lambda>item. categorizeItem item = key) items)])
               sectionTable)" by (rule sections_unfold)
    show "mset (concat (map sectionItems ?sections)) = mset items"
      by (rule categorizeNavigationItems_mset)
    show "distinct (map sectionTitle ?sections)" by (rule categorizeNavigationItems_titles)
    show "\<forall>section \<in> set ?sections. sectionItems section \<noteq> [] \<and>
        (\<exists>key. sectionItems section = filter (\<lambda>item. categorizeItem item = key) items)"
      by (rule 5)
    show "\<forall>item \<in> set items. \<exists>!section. section \<in> set ?sections \<and> item \<in> set (sectionItems section)"
      by (rule 6)
  qed
qed


theorem categorizeNavigationItems_partition_witness:
  "categorizeNavigationItems
     [leaf ''Intro'' ''/fund-intro'' None, leaf ''Storage'' ''/db-storage'' None,
      leaf ''More'' ''/fund-more'' None] =
   Inr [NavigationSection ''Fundamentals''
          [leaf ''Intro'' ''/fund-intro'' None, leaf ''More'' ''/fund-more'' None],
        NavigationSection ''Databases'' [leaf ''Storage'' ''/db-storage'' None]]"
proof -
  let ?items = "[leaf ''Intro'' ''/fund-intro'' None, leaf ''Storage'' ''/db-storage'' None,
      leaf ''More'' ''/fund-more'' None]"
  have k: "categorizeItem (leaf ''Intro'' ''/fund-intro'' None) = ''fundamentals''"
    "categorizeItem (leaf ''Storage'' ''/db-storage'' None) = ''databases''"
    "categorizeItem (leaf ''More'' ''/fund-more'' None) = ''fundamentals''"
    by code_simp+
  obtain sections where a: "categorizeNavigationItems ?items = Inr sections"
    and b: "sections =
       concat (map (\<lambda>(key, label).
                 if filter (\<lambda>item. categorizeItem item = key) ?items = [] then []
                 else [NavigationSection label (filter (\<lambda>item. categorizeItem item = key) ?items)])
               sectionTable)"
    using categorizeNavigationItems_partition [of ?items] by blast
  have "sections = [NavigationSection ''Fundamentals''
          [leaf ''Intro'' ''/fund-intro'' None, leaf ''More'' ''/fund-more'' None],
        NavigationSection ''Databases'' [leaf ''Storage'' ''/db-storage'' None]]"
    unfolding b by (simp add: sectionTable_def k)
  with a show ?thesis by simp
qed

section \<open>Expansion-state projector: which nodes are marked\<close>

lemma isPathInSubtree_iff:
  "isPathInSubtree p item = (locatedAt p item \<or> (\<exists>d \<in> set (descendants item). locatedAt p d))"
proof (induction item)
  case (NavigationItem t h cs ic ord ex)
  show ?case
  proof (cases cs)
    case None
    then show ?thesis by (auto simp: locatedAt_def)
  next
    case (Some kids)
    have IH: "isPathInSubtree p c = (locatedAt p c \<or> (\<exists>d \<in> set (descendants c). locatedAt p d))"
      if "c \<in> set kids" for c
      using NavigationItem Some that by auto
    show ?thesis
      using Some IH by (auto simp: locatedAt_def list_ex_iff)
  qed
qed

lemma setItemExpandedState_fields:
  "isExpanded (setItemExpandedState node p) = Some (isPathInSubtree p node) \<and>
   title (setItemExpandedState node p) = title node \<and>
   href (setItemExpandedState node p) = href node \<and>
   icon (setItemExpandedState node p) = icon node \<and>
   order (setItemExpandedState node p) = order node \<and>
   children (setItemExpandedState node p) =
     map_option (map (\<lambda>child. setItemExpandedState child p)) (children node)"
  by (cases node) simp

lemma descendants_setItemExpandedState:
  "descendants (setItemExpandedState node p) =
     map (\<lambda>m. setItemExpandedState m p) (descendants node)"
proof (induction node)
  case (NavigationItem t h cs ic ord ex)
  show ?case
  proof (cases cs)
    case None
    then show ?thesis by simp
  next
    case (Some kids)
    have IH: "descendants (setItemExpandedState c p) =
        map (\<lambda>m. setItemExpandedState m p) (descendants c)" if "c \<in> set kids" for c
      using NavigationItem Some that by auto
    show ?thesis using Some IH by (simp add: map_concat comp_def cong: map_cong)
  qed
qed

lemma nodes_setItemExpandedState:
  "nodes (setItemExpandedState node p) = map (\<lambda>m. setItemExpandedState m p) (nodes node)"
  by (simp add: nodes_def descendants_setItemExpandedState)

lemma sectionNodes_setExpandedState:
  "sectionNodes (setExpandedState sections currentPath) =
     map (\<lambda>node. setItemExpandedState node (normalizedPath currentPath)) (sectionNodes sections)"
  by (induction sections)
    (simp_all add: sectionNodes_def setExpandedState_def map_concat comp_def
      nodes_setItemExpandedState)

lemma sectionTitle_setExpandedState:
  "map sectionTitle (setExpandedState sections currentPath) = map sectionTitle sections"
  by (simp add: setExpandedState_def comp_def)

text \<open>
  Claim C7, as stated, fails twice. The location is first normalised to start with \<open>/\<close>: for
  the location \<open>a/b\<close> a leaf whose href equals that location is marked not expanded. And a
  node with href \<open>/ab\<close> is marked expanded at \<open>/a/b\<close> when one of its descendants is there.
\<close>

theorem setExpandedState_counterexample:
  "setExpandedState [NavigationSection ''S'' [leaf ''B'' ''a/b'' None]] ''a/b'' =
     [NavigationSection ''S'' [NavigationItem ''B'' ''a/b'' None None None (Some False)]] \<and>
   setExpandedState
     [NavigationSection ''S''
        [NavigationItem ''AB'' ''/ab'' (Some [leaf ''B'' ''/a/b'' None]) None None None]] ''/a/b'' =
     [NavigationSection ''S''
        [NavigationItem ''AB'' ''/ab''
           (Some [NavigationItem ''B'' ''/a/b'' None None None (Some True)]) None None
           (Some True)]]"
  by code_simp

text \<open>
  Claim C7, amended. \<open>setExpandedState\<close> keeps the sections and the shape of every tree, and
  replaces every node by its marked copy for the normalised location. A node is marked
  expanded exactly when its href is the normalised location, or its href followed by \<open>/\<close>
  starts it, or one of its descendants satisfies one of the two; otherwise it is marked not
  expanded; title, href, icon and order are kept. At the location \<open>/a/b\<close> a node with href
  \<open>/a\<close> is expanded, a leaf with href \<open>/a/b/c\<close> is not, and a node with href \<open>/ab\<close> none
  of whose descendants is located there is not.
\<close>

theorem setExpandedState_marks_subtrees:
  "map sectionTitle (setExpandedState sections currentPath) = map sectionTitle sections \<and>
   sectionNodes (setExpandedState sections currentPath) =
     map (\<lambda>node. setItemExpandedState node (normalizedPath currentPath))
       (sectionNodes sections) \<and>
   (\<forall>node p.
      isExpanded (setItemExpandedState node p) =
        Some (locatedAt p node \<or> (\<exists>d \<in> set (descendants node). locatedAt p d)) \<and>
      title (setItemExpandedState node p) = title node \<and>
      href (setItemExpandedState node p) = href node \<and>
      icon (setItemExpandedState node p) = icon node \<and>
      order (setItemExpandedState node p) = order node) \<and>
   (\<forall>node. href node = ''/a'' \<longrightarrow>
      isExpanded (setItemExpandedState node ''/a/b'') = Some True) \<and>
   (\<forall>node. href node = ''/a/b/c'' \<and> descendants node = [] \<longrightarrow>
      isExpanded (setItemExpandedState node ''/a/b'') = Some False) \<and>
   (\<forall>node. href node = ''/ab'' \<and> (\<forall>d \<in> set (descendants node). \<not> locatedAt ''/a/b'' d) \<longrightarrow>
      isExpanded (setItemExpandedState node ''/a/b'') = Some False)"
proof (intro conjI allI impI)
  show "map sectionTitle (setExpandedState sections currentPath) = map sectionTitle sections"
    by (rule sectionTitle_setExpandedState)
  show "sectionNodes (setExpandedState sections currentPath) =
     map (\<lambda>node. setItemExpandedState node (normalizedPath currentPath)) (sectionNodes sections)"
    by (rule sectionNodes_setExpandedState)
next
  fix node p
  show "isExpanded (setItemExpandedState node p) =
        Some (locatedAt p node \<or> (\<exists>d \<in> set (descendants node). locatedAt p d))"
    using setItemExpandedState_fields [of node p] isPathInSubtree_iff [of p node] by simp
  show "title (setItemExpandedState node p) = title node"
    "href (setItemExpandedState node p) = href node"
    "icon (setItemExpandedState node p) = icon node"
    "order (setItemExpandedState node p) = order node"
    using setItemExpandedState_fields [of node p] by simp_all
next
  fix node assume "href node = ''/a''"
  then have "locatedAt ''/a/b'' node" by (simp add: locatedAt_def startsWith_def)
  then show "isExpanded (setItemExpandedState node ''/a/b'') = Some True"
    using setItemExpandedState_fields [of node "''/a/b''"] isPathInSubtree_iff [of "''/a/b''" node]
    by simp
next
  fix node assume "href node = ''/a/b/c'' \<and> descendants node = []"
  moreover from this have "\<not> locatedAt ''/a/b'' node" by (simp add: locatedAt_def startsWith_def)
  ultimately show "isExpanded (setItemExpandedState node ''/a/b'') = Some False"
    using setItemExpandedState_fields [of node "''/a/b''"] isPathInSubtree_iff [of "''/a/b''" node]
    by simp
next
  fix node
  assume a: "href node = ''/ab'' \<and> (\<forall>d \<in> set (descendants node). \<not> locatedAt ''/a/b'' d)"
  then have "\<not> locatedAt ''/a/b'' node" by (simp add: locatedAt_def startsWith_def)
  with a show "isExpanded (setItemExpandedState node ''/a/b'') = Some False"
    using setItemExpandedState_fields [of node "''/a/b''"] isPathInSubtree_iff [of "''/a/b''" node]
    by simp
qed

theorem setExpandedState_marks_subtrees_witness:
  "href (NavigationItem ''A'' ''/a'' (Some [leaf ''B'' ''/a/b'' None]) None None None) = ''/a'' \<and>
   isExpanded (setItemExpandedState
     (NavigationItem ''A'' ''/a'' (Some [leaf ''B'' ''/a/b'' None]) None None None) ''/a/b'') =
     Some True \<and>
   href (leaf ''C'' ''/a/b/c'' None) = ''/a/b/c'' \<and> descendants (leaf ''C'' ''/a/b/c'' None) = [] \<and>
   isExpanded (setItemExpandedState (leaf ''C'' ''/a/b/c'' None) ''/a/b'') = Some False \<and>
   href (NavigationItem ''AB'' ''/ab'' (Some [leaf ''X'' ''/ab/x'' None]) None None None) = ''/ab'' \<and>
   \<not> locatedAt ''/a/b'' (leaf ''X'' ''/ab/x'' None) \<and>
   isExpanded (setItemExpandedState
     (NavigationItem ''AB'' ''/ab'' (Some [leaf ''X'' ''/ab/x'' None]) None None None) ''/a/b'') =
     Some False"
proof -
  note t = setExpandedState_marks_subtrees [of "[]" "''/a/b''"]
  note t4 = t [THEN conjunct2, THEN conjunct2, THEN conjunct2, THEN conjunct1, rule_format]
  note t5 = t [THEN conjunct2, THEN conjunct2, THEN conjunct2, THEN conjunct2, THEN conjunct1,
      rule_format]
  note t6 = t [THEN conjunct2, THEN conjunct2, THEN conjunct2, THEN conjunct2, THEN conjunct2,
      rule_format]
  have h1: "href (NavigationItem ''A'' ''/a'' (Some [leaf ''B'' ''/a/b'' None]) None None None) = ''/a''"
    by simp
  have 1: "isExpanded (setItemExpandedState
     (NavigationItem ''A'' ''/a'' (Some [leaf ''B'' ''/a/b'' None]) None None None) ''/a/b'') =
     Some True"
    using h1 by (rule t4)
  have h2: "href (leaf ''C'' ''/a/b/c'' None) = ''/a/b/c'' \<and> descendants (leaf ''C'' ''/a/b/c'' None) = []"
    by (simp add: leaf_def)
  have 2: "isExpanded (setItemExpandedState (leaf ''C'' ''/a/b/c'' None) ''/a/b'') = Some False"
    using h2 by (rule t5)
  have n: "\<not> locatedAt ''/a/b'' (leaf ''X'' ''/ab/x'' None)"
    by (simp add: locatedAt_def leaf_def startsWith_def)
  have h3: "href (NavigationItem ''AB'' ''/ab'' (Some [leaf ''X'' ''/ab/x'' None]) None None None) = ''/ab'' \<and>
      (\<forall>d \<in> set (descendants (NavigationItem ''AB'' ''/ab'' (Some [leaf ''X'' ''/ab/x'' None])
          None None None)). \<not> locatedAt ''/a/b'' d)"
    using n by (simp add: leaf_def)
  have 3: "isExpanded (setItemExpandedState
     (NavigationItem ''AB'' ''/ab'' (Some [leaf ''X'' ''/ab/x'' None]) None None None) ''/a/b'') =
     Some False"
    using h3 by (rule t6)
  from h1 1 h2 2 h3 3 n show ?thesis by blast
qed

section \<open>Metadata reader: soft failure and unmatched fields\<close>

lemma startsWith_append: "startsWith s p = (\<exists>r. s = p @ r)"
  by (metis append_eq_conv_conj append_take_drop_id startsWith_def)

lemma firstMatch_iff:
  "(firstMatch at s \<noteq> None) = (\<exists>pre suf. s = pre @ suf \<and> at suf \<noteq> None)"
proof (induction s)
  case Nil
  show ?case by simp
next
  case (Cons c cs)
  show ?case
  proof (cases "at (c # cs)")
    case (Some m)
    then have "c # cs = [] @ (c # cs) \<and> at (c # cs) \<noteq> None" by simp
    then have "\<exists>pre suf. c # cs = pre @ suf \<and> at suf \<noteq> None" by blast
    with Some show ?thesis by simp
  next
    case None
    have "(\<exists>pre suf. c # cs = pre @ suf \<and> at suf \<noteq> None) =
          (\<exists>pre suf. cs = pre @ suf \<and> at suf \<noteq> None)"
    proof
      assume "\<exists>pre suf. c # cs = pre @ suf \<and> at suf \<noteq> None"
      then obtain pre suf where ps: "c # cs = pre @ suf" "at suf \<noteq> None" by blast
      show "\<exists>pre suf. cs = pre @ suf \<and> at suf \<noteq> None"
      proof (cases pre)
        case Nil
        with ps None show ?thesis by simp
      next
        case (Cons a pre')
        with ps have "cs = pre' @ suf" by simp
        with ps(2) show ?thesis by blast
      qed
    next
      assume "\<exists>pre suf. cs = pre @ suf \<and> at suf \<noteq> None"
      then obtain pre suf where "cs = pre @ suf" "at suf \<noteq> None" by blast
      then have "c # cs = (c # pre) @ suf \<and> at suf \<noteq> None" by simp
      then show "\<exists>pre suf. c # cs = pre @ suf \<and> at suf \<noteq> None" by blast
    qed
    with None Cons show ?thesis by simp
  qed
qed

lemma quote_not_space: "isQuote c \<Longrightarrow> \<not> isSpace c"
  by (auto simp: isQuote_def isSpace_def)

lemma digit_not_space: "isDigit c \<Longrightarrow> \<not> isSpace c"
  by (auto simp: isDigit_def isSpace_def)

lemma quote_not_terminator: "isQuote c \<Longrightarrow> \<not> isLineTerminator c"
  by (auto simp: isQuote_def isLineTerminator_def)

lemma dropWhile_spaces:
  "\<not> isSpace q \<Longrightarrow>
   (dropWhile isSpace r = q # rest) = (\<exists>ws. r = ws @ q # rest \<and> (\<forall>c \<in> set ws. isSpace c))"
proof
  assume "\<not> isSpace q" "dropWhile isSpace r = q # rest"
  then have "r = takeWhile isSpace r @ q # rest \<and> (\<forall>c \<in> set (takeWhile isSpace r). isSpace c)"
    by (metis takeWhile_dropWhile_id set_takeWhileD)
  then show "\<exists>ws. r = ws @ q # rest \<and> (\<forall>c \<in> set ws. isSpace c)" by blast
next
  assume nq: "\<not> isSpace q" and "\<exists>ws. r = ws @ q # rest \<and> (\<forall>c \<in> set ws. isSpace c)"
  then obtain ws where "r = ws @ q # rest" "\<forall>c \<in> set ws. isSpace c" by blast
  with nq show "dropWhile isSpace r = q # rest"
    by (simp add: dropWhile_append3)
qed

lemma dotStarQuote_iff:
  "(dotStarQuote s \<noteq> None) =
   (\<exists>body q post. s = body @ q # post \<and> (\<forall>c \<in> set body. \<not> isLineTerminator c) \<and> isQuote q)"
proof
  show "dotStarQuote s \<noteq> None \<Longrightarrow>
    \<exists>body q post. s = body @ q # post \<and> (\<forall>c \<in> set body. \<not> isLineTerminator c) \<and> isQuote q"
  proof (induction s)
    case Nil
    then show ?case by simp
  next
    case (Cons c cs)
    show ?case
    proof (cases "\<not> isLineTerminator c \<and> dotStarQuote cs \<noteq> None")
      case True
      then obtain body q post where
        "cs = body @ q # post" "\<forall>c \<in> set body. \<not> isLineTerminator c" "isQuote q"
        using Cons.IH by blast
      with True have "c # cs = (c # body) @ q # post \<and>
          (\<forall>x \<in> set (c # body). \<not> isLineTerminator x) \<and> isQuote q"
        by simp
      then show ?thesis by blast
    next
      case False
      with Cons.prems have "isQuote c" by (auto split: if_splits)
      then have "c # cs = [] @ c # cs \<and> (\<forall>x \<in> set []. \<not> isLineTerminator x) \<and> isQuote c"
        by simp
      then show ?thesis by blast
    qed
  qed
next
  assume "\<exists>body q post. s = body @ q # post \<and> (\<forall>c \<in> set body. \<not> isLineTerminator c) \<and> isQuote q"
  then obtain body q post where s: "s = body @ q # post"
    and body: "\<forall>c \<in> set body. \<not> isLineTerminator c" and q: "isQuote q"
    by blast
  from body have "dotStarQuote (body @ q # post) \<noteq> None"
  proof (induction body)
    case Nil
    show ?case using q quote_not_terminator [OF q] by (simp split: option.splits)
  next
    case (Cons c body)
    then show ?case by (auto split: option.splits)
  qed
  with s show "dotStarQuote s \<noteq> None" by simp
qed

lemma dotPlusQuote_iff:
  "(dotPlusQuote s \<noteq> None) =
   (\<exists>body q post. s = body @ q # post \<and> body \<noteq> [] \<and>
      (\<forall>c \<in> set body. \<not> isLineTerminator c) \<and> isQuote q)"
proof (cases s)
  case Nil
  then show ?thesis by (simp add: dotPlusQuote_def)
next
  case (Cons c cs)
  show ?thesis
  proof
    assume "dotPlusQuote s \<noteq> None"
    with Cons have c: "\<not> isLineTerminator c" and "dotStarQuote cs \<noteq> None"
      by (auto simp: dotPlusQuote_def split: if_splits)
    then obtain body q post where
      "cs = body @ q # post" "\<forall>c \<in> set body. \<not> isLineTerminator c" "isQuote q"
      unfolding dotStarQuote_iff by blast
    with c Cons have "s = (c # body) @ q # post \<and> c # body \<noteq> [] \<and>
        (\<forall>x \<in> set (c # body). \<not> isLineTerminator x) \<and> isQuote q"
      by simp
    then show "\<exists>body q post. s = body @ q # post \<and> body \<noteq> [] \<and>
      (\<forall>c \<in> set body. \<not> isLineTerminator c) \<and> isQuote q"
      by blast
  next
    assume "\<exists>body q post. s = body @ q # post \<and> body \<noteq> [] \<and>
      (\<forall>c \<in> set body. \<not> isLineTerminator c) \<and> isQuote q"
    then obtain body q post where s: "s = body @ q # post" and ne: "body \<noteq> []"
      and body: "\<forall>c \<in> set body. \<not> isLineTerminator c" and q: "isQuote q"
      by blast
    from ne obtain b bs where b: "body = b # bs" by (cases body) auto
    with s Cons have "c = b" "cs = bs @ q # post" by simp_all
    moreover have "dotStarQuote (bs @ q # post) \<noteq> None"
      unfolding dotStarQuote_iff using body b q by auto
    ultimately show "dotPlusQuote s \<noteq> None"
      using Cons body b by (auto simp: dotPlusQuote_def)
  qed
qed

lemma titleAt_iff:
  "(titleAt s \<noteq> None) =
   (\<exists>ws q1 body q2 post. s = ''title:'' @ ws @ [q1] @ body @ [q2] @ post \<and>
      (\<forall>c \<in> set ws. isSpace c) \<and> isQuote q1 \<and> body \<noteq> [] \<and>
      (\<forall>c \<in> set body. \<not> isLineTerminator c) \<and> isQuote q2)"
proof
  assume a: "titleAt s \<noteq> None"
  then have sw: "startsWith s ''title:''" by (auto simp: titleAt_def split: if_splits)
  then obtain r where r: "s = ''title:'' @ r" unfolding startsWith_append by blast
  from a sw r obtain q1 rest where d: "dropWhile isSpace r = q1 # rest" and q1: "isQuote q1"
    and m: "dotPlusQuote rest \<noteq> None"
    by (auto simp: titleAt_def split: list.splits if_splits)
  from d obtain ws where ws: "r = ws @ q1 # rest" "\<forall>c \<in> set ws. isSpace c"
    using dropWhile_spaces [OF quote_not_space [OF q1]] by blast
  from m obtain body q2 post where "rest = body @ q2 # post" "body \<noteq> []"
    "\<forall>c \<in> set body. \<not> isLineTerminator c" "isQuote q2"
    unfolding dotPlusQuote_iff by blast
  with r ws q1 have "s = ''title:'' @ ws @ [q1] @ body @ [q2] @ post \<and>
      (\<forall>c \<in> set ws. isSpace c) \<and> isQuote q1 \<and> body \<noteq> [] \<and>
      (\<forall>c \<in> set body. \<not> isLineTerminator c) \<and> isQuote q2"
    by simp
  then show "\<exists>ws q1 body q2 post. s = ''title:'' @ ws @ [q1] @ body @ [q2] @ post \<and>
      (\<forall>c \<in> set ws. isSpace c) \<and> isQuote q1 \<and> body \<noteq> [] \<and>
      (\<forall>c \<in> set body. \<not> isLineTerminator c) \<and> isQuote q2"
    by blast
next
  assume "\<exists>ws q1 body q2 post. s = ''title:'' @ ws @ [q1] @ body @ [q2] @ post \<and>
      (\<forall>c \<in> set ws. isSpace c) \<and> isQuote q1 \<and> body \<noteq> [] \<and>
      (\<forall>c \<in> set body. \<not> isLineTerminator c) \<and> isQuote q2"
  then obtain ws q1 body q2 post where s: "s = ''title:'' @ ws @ [q1] @ body @ [q2] @ post"
    and ws: "\<forall>c \<in> set ws. isSpace c" and q1: "isQuote q1" and ne: "body \<noteq> []"
    and body: "\<forall>c \<in> set body. \<not> isLineTerminator c" and q2: "isQuote q2"
    by blast
  have sw: "startsWith s ''title:''" unfolding startsWith_append using s by blast
  have dr: "drop 6 s = ws @ q1 # (body @ q2 # post)" using s by simp
  have d: "dropWhile isSpace (drop 6 s) = q1 # (body @ q2 # post)"
    unfolding dr using dropWhile_spaces [OF quote_not_space [OF q1]] ws by blast
  have "dotPlusQuote (body @ q2 # post) \<noteq> None"
    unfolding dotPlusQuote_iff using ne body q2 by blast
  then show "titleAt s \<noteq> None"
    using sw d q1 by (simp add: titleAt_def)
qed

lemma orderAt_iff:
  "(orderAt s \<noteq> None) =
   (\<exists>ws d post. s = ''order:'' @ ws @ [d] @ post \<and> (\<forall>c \<in> set ws. isSpace c) \<and> isDigit d)"
proof
  assume a: "orderAt s \<noteq> None"
  then have sw: "startsWith s ''order:''" by (auto simp: orderAt_def split: if_splits)
  then obtain r where r: "s = ''order:'' @ r" unfolding startsWith_append by blast
  from a sw r have "takeWhile isDigit (dropWhile isSpace r) \<noteq> []"
    by (auto simp: orderAt_def Let_def split: if_splits)
  then obtain d post where d: "dropWhile isSpace r = d # post" and dd: "isDigit d"
    by (cases "dropWhile isSpace r") (auto split: if_splits)
  from d obtain ws where "r = ws @ d # post" "\<forall>c \<in> set ws. isSpace c"
    using dropWhile_spaces [OF digit_not_space [OF dd]] by blast
  with r dd have "s = ''order:'' @ ws @ [d] @ post \<and> (\<forall>c \<in> set ws. isSpace c) \<and> isDigit d"
    by simp
  then show "\<exists>ws d post. s = ''order:'' @ ws @ [d] @ post \<and> (\<forall>c \<in> set ws. isSpace c) \<and> isDigit d"
    by blast
next
  assume "\<exists>ws d post. s = ''order:'' @ ws @ [d] @ post \<and> (\<forall>c \<in> set ws. isSpace c) \<and> isDigit d"
  then obtain ws d post where s: "s = ''order:'' @ ws @ [d] @ post"
    and ws: "\<forall>c \<in> set ws. isSpace c" and dd: "isDigit d"
    by blast
  have sw: "startsWith s ''order:''" unfolding startsWith_append using s by blast
  have dr: "drop 6 s = ws @ d # post" using s by simp
  have "dropWhile isSpace (drop 6 s) = d # post"
    unfolding dr using dropWhile_spaces [OF digit_not_space [OF dd]] ws by blast
  then show "orderAt s \<noteq> None"
    using sw dd by (simp add: orderAt_def Let_def)
qed

lemma title_matched_iff: "(firstMatch titleAt fm \<noteq> None) = titlePattern fm"
proof -
  have "titlePattern fm = (\<exists>pre suf. fm = pre @ suf \<and> titleAt suf \<noteq> None)"
    unfolding titleAt_iff titlePattern_def by blast
  then show ?thesis by (simp only: firstMatch_iff)
qed

lemma order_matched_iff: "(firstMatch orderAt fm \<noteq> None) = orderPattern fm"
proof -
  have "orderPattern fm = (\<exists>pre suf. fm = pre @ suf \<and> orderAt suf \<noteq> None)"
    unfolding orderAt_iff orderPattern_def by blast
  then show ?thesis by (simp only: firstMatch_iff)
qed

text \<open>
  Claim C9. \<open>readMDXMetadata\<close> never raises: it always returns a metadata record. The record
  is empty when \<open>window\<close> is defined and when reading the file throws (no such file, or not
  readable). When the file is read, the record is empty if there is no front matter, and
  otherwise a field is undefined exactly when the front matter does not match the pattern of
  that field: no default is filled in.
\<close>

theorem readMDXMetadata_fails_soft:
  "(\<exists>m. readMDXMetadata env filePath = Inr m) \<and>
   (hasWindow env \<longrightarrow> readMDXMetadata env filePath = Inr emptyMetadata) \<and>
   (\<forall>e. readFileSync env filePath = Inl e \<longrightarrow> readMDXMetadata env filePath = Inr emptyMetadata) \<and>
   (\<forall>content. \<not> hasWindow env \<and> readFileSync env filePath = Inr content \<longrightarrow>
      (case frontmatterMatch content of
         None \<Rightarrow> readMDXMetadata env filePath = Inr emptyMetadata
       | Some frontmatter \<Rightarrow>
           (\<exists>m. readMDXMetadata env filePath = Inr m \<and>
              (metaTitle m = None) = (\<not> titlePattern frontmatter) \<and>
              (metaOrder m = None) = (\<not> orderPattern frontmatter))))"
proof (intro conjI allI impI)
  show "\<exists>m. readMDXMetadata env filePath = Inr m"
    by (simp add: readMDXMetadata_def split: sum.splits)
  show "readMDXMetadata env filePath = Inr emptyMetadata" if "hasWindow env"
    using that by (simp add: readMDXMetadata_def readMDXMetadata_try_def)
  show "readMDXMetadata env filePath = Inr emptyMetadata" if "readFileSync env filePath = Inl e" for e
    using that by (simp add: readMDXMetadata_def readMDXMetadata_try_def)
next
  fix content
  assume a: "\<not> hasWindow env \<and> readFileSync env filePath = Inr content"
  show "case frontmatterMatch content of
         None \<Rightarrow> readMDXMetadata env filePath = Inr emptyMetadata
       | Some frontmatter \<Rightarrow>
           (\<exists>m. readMDXMetadata env filePath = Inr m \<and>
              (metaTitle m = None) = (\<not> titlePattern frontmatter) \<and>
              (metaOrder m = None) = (\<not> orderPattern frontmatter))"
  proof (cases "frontmatterMatch content")
    case None
    with a show ?thesis by (simp add: readMDXMetadata_def readMDXMetadata_try_def)
  next
    case (Some fm)
    have "readMDXMetadata env filePath =
        Inr \<lparr>metaTitle = firstMatch titleAt fm,
             metaOrder = map_option parseInt (firstMatch orderAt fm)\<rparr>"
      using a Some by (simp add: readMDXMetadata_def readMDXMetadata_try_def)
    moreover have "(firstMatch titleAt fm = None) = (\<not> titlePattern fm)"
      using title_matched_iff [of fm] by blast
    moreover have "(map_option parseInt (firstMatch orderAt fm) = None) = (\<not> orderPattern fm)"
      using order_matched_iff [of fm] by auto
    ultimately show ?thesis using Some by simp
  qed
qed

theorem readMDXMetadata_fails_soft_witness:
  "readFileSync sampleEnvironment ''app/missing.mdx'' = Inl FsError \<and>
   readMDXMetadata sampleEnvironment ''app/missing.mdx'' = Inr emptyMetadata \<and>
   hasWindow (sampleEnvironment\<lparr>hasWindow := True\<rparr>) \<and>
   readMDXMetadata (sampleEnvironment\<lparr>hasWindow := True\<rparr>) ''app/page.mdx'' = Inr emptyMetadata \<and>
   \<not> hasWindow sampleEnvironment \<and>
   readFileSync sampleEnvironment ''app/page.mdx'' = Inr sampleFile \<and>
   readMDXMetadata sampleEnvironment ''app/page.mdx'' =
     Inr \<lparr>metaTitle = Some ''Custom Name'', metaOrder = None\<rparr> \<and>
   titlePattern (the (frontmatterMatch sampleFile)) \<and>
   \<not> orderPattern (the (frontmatterMatch sampleFile))"
proof -
  have r1: "readFileSync sampleEnvironment ''app/missing.mdx'' = Inl FsError"
    by (simp add: sampleEnvironment_def)
  have 1: "readMDXMetadata sampleEnvironment ''app/missing.mdx'' = Inr emptyMetadata"
    using readMDXMetadata_fails_soft [of sampleEnvironment "''app/missing.mdx''"] r1 by blast
  have w: "hasWindow (sampleEnvironment\<lparr>hasWindow := True\<rparr>)" by simp
  have 2: "readMDXMetadata (sampleEnvironment\<lparr>hasWindow := True\<rparr>) ''app/page.mdx'' =
      Inr emptyMetadata"
    using readMDXMetadata_fails_soft [of "sampleEnvironment\<lparr>hasWindow := True\<rparr>" "''app/page.mdx''"] w
    by blast
  have r3: "\<not> hasWindow sampleEnvironment \<and>
      readFileSync sampleEnvironment ''app/page.mdx'' = Inr sampleFile"
    by (simp add: sampleEnvironment_def)
  have v: "readMDXMetadata sampleEnvironment ''app/page.mdx'' =
      Inr \<lparr>metaTitle = Some ''Custom Name'', metaOrder = None\<rparr>"
    by code_simp
  obtain fm where fm: "frontmatterMatch sampleFile = Some fm"
    by (cases "frontmatterMatch sampleFile") (code_simp, simp)
  from readMDXMetadata_fails_soft [of sampleEnvironment "''app/page.mdx''"] r3 fm
  obtain m where "readMDXMetadata sampleEnvironment ''app/page.mdx'' = Inr m"
    "(metaTitle m = None) = (\<not> titlePattern fm)" "(metaOrder m = None) = (\<not> orderPattern fm)"
    by (auto split: option.splits)
  with v have "titlePattern fm" "\<not> orderPattern fm" by auto
  with r1 1 w 2 r3 v fm show ?thesis by simp
qed

section \<open>Directory scanner: a failing listing\<close>

lemma readMDXMetadata_metadataOf: "readMDXMetadata env filePath = Inr (metadataOf env filePath)"
  by (simp add: readMDXMetadata_def metadataOf_def split: sum.splits)

lemma list_ex_find: "list_ex P xs = (find P xs \<noteq> None)"
  by (induction xs) auto

lemma scanEntries_Cons:
  "scanEntries env lc (entry # rest) dirPath basePath =
     (case scanEntries env lc rest dirPath basePath of
        (Inl e, log2) \<Rightarrow> (Inl e, entryLog env lc entry dirPath basePath @ log2)
      | (Inr items, log2) \<Rightarrow>
          (Inr (entryItems env lc entry dirPath basePath @ items),
           entryLog env lc entry dirPath basePath @ log2))"
proof (cases "skippedName (entryName entry) \<or> \<not> isDirectory entry")
  case True
  then show ?thesis
    by (auto simp: entryItems_def entryLog_def split: prod.splits sum.splits)
next
  case False
  obtain childItems log1 where sd:
    "scanDirectory env lc entry (pathJoin dirPath (entryName entry))
       (basePath @ ''/'' @ entryName entry) = (childItems, log1)"
    by (cases "scanDirectory env lc entry (pathJoin dirPath (entryName entry))
       (basePath @ ''/'' @ entryName entry)") auto
  obtain r log2 where se: "scanEntries env lc rest dirPath basePath = (r, log2)"
    by (cases "scanEntries env lc rest dirPath basePath") auto
  show ?thesis
  proof (cases "find (existsSync entry) pageFiles")
    case None
    then have "\<not> list_ex (existsSync entry) pageFiles" by (simp add: list_ex_find)
    with False None sd se show ?thesis
      by (cases r) (simp_all add: entryItems_def entryLog_def Let_def)
  next
    case (Some pageFile)
    then have "list_ex (existsSync entry) pageFiles" by (simp add: list_ex_find)
    with False Some sd se show ?thesis
      by (cases r)
        (simp_all add: entryItems_def entryLog_def Let_def readMDXMetadata_metadataOf)
  qed
qed

lemma scanEntries_eq:
  "scanEntries env lc es dirPath basePath =
     (Inr (concat (map (\<lambda>entry. entryItems env lc entry dirPath basePath) es)),
      concat (map (\<lambda>entry. entryLog env lc entry dirPath basePath) es))"
proof (induction es)
  case Nil
  show ?case by simp
next
  case (Cons entry rest)
  show ?case by (simp only: scanEntries_Cons Cons.IH) simp
qed

lemma scanDirectory_listable:
  "scanDirectory env lc (FsDir n es True) dirPath basePath =
     (sortNavigationItems lc (concat (map (\<lambda>entry. entryItems env lc entry dirPath basePath) es)),
      concat (map (\<lambda>entry. entryLog env lc entry dirPath basePath) es))"
  by (simp add: scanEntries_eq)

lemma scanDirectory_unlistable:
  "scanDirectory env lc (FsDir n es False) dirPath basePath = ([], [dirPath])"
  by simp

lemma sortNavigationItems_Nil: "sortNavigationItems lc [] = []"
  by (simp add: sortNavigationItems_def)

lemma concat_Nils: "concat (map (\<lambda>x. []) es) = []"
  by (induction es) simp_all

lemma entryItems_emptied: "entryItems env lc (emptied entry) dirPath basePath = []"
proof (cases entry)
  case (FsFile n)
  then show ?thesis by (simp add: entryItems_def emptied_def isDirectory_def)
next
  case (FsDir n es ok)
  have "find (existsSync (FsDir n [] True)) pageFiles = None"
    by (simp add: existsSync_def pageFiles_def)
  then show ?thesis
    using FsDir by (simp add: entryItems_def emptied_def Let_def sortNavigationItems_Nil)
qed

lemma existsSync_names:
  "entryName a = entryName b \<Longrightarrow> isDirectory a = isDirectory b \<Longrightarrow>
   map entryName (entries a) = map entryName (entries b) \<Longrightarrow> existsSync a = existsSync b"
proof (rule ext)
  fix f
  assume a: "entryName a = entryName b" "isDirectory a = isDirectory b"
    "map entryName (entries a) = map entryName (entries b)"
  have ex: "list_ex (\<lambda>e. entryName e = f) xs = list_ex (\<lambda>n. n = f) (map entryName xs)" for xs
    by (induction xs) simp_all
  show "existsSync a f = existsSync b f"
    using a by (cases a; cases b) (simp_all add: existsSync_def isDirectory_def ex)
qed

lemma entryName_emptied: "entryName (emptied e) = entryName e"
  by (cases e) (simp_all add: emptied_def)

lemma entryName_failingDirectoriesEmptied: "entryName (failingDirectoriesEmptied e) = entryName e"
  by (cases e) simp_all

lemma isDirectory_failingDirectoriesEmptied: "isDirectory (failingDirectoriesEmptied e) = isDirectory e"
  by (cases e) (simp_all add: isDirectory_def)

lemma names_failingDirectoriesEmptied:
  "map entryName (entries (failingDirectoriesEmptied e)) = map entryName (entries e)"
  by (cases e) (simp_all add: comp_def entryName_emptied entryName_failingDirectoriesEmptied)

lemma existsSync_failingDirectoriesEmptied: "existsSync (failingDirectoriesEmptied e) = existsSync e"
  by (rule existsSync_names)
    (simp_all add: entryName_failingDirectoriesEmptied isDirectory_failingDirectoriesEmptied
      names_failingDirectoriesEmptied)

lemma scanDirectory_failingDirectoriesEmptied:
  "fst (scanDirectory env lc (failingDirectoriesEmptied t) dirPath basePath) =
   fst (scanDirectory env lc t dirPath basePath)"
proof (induction t arbitrary: dirPath basePath)
  case (FsFile n)
  show ?case by simp
next
  case (FsDir n es ok)
  show ?case
  proof (cases ok)
    case False
    then show ?thesis
      by (simp add: scanEntries_eq entryItems_emptied comp_def concat_Nils sortNavigationItems_Nil)
  next
    case True
    have eq: "entryItems env lc (failingDirectoriesEmptied e) dirPath basePath =
        entryItems env lc e dirPath basePath" if "e \<in> set es" for e
      unfolding entryItems_def Let_def entryName_failingDirectoriesEmptied
        isDirectory_failingDirectoriesEmptied existsSync_failingDirectoriesEmptied FsDir.IH [OF that]
      by (rule refl)
    have "map (\<lambda>entry. entryItems env lc entry dirPath basePath)
          (map failingDirectoriesEmptied es) =
        map (\<lambda>entry. entryItems env lc entry dirPath basePath) es"
      by (simp add: comp_def eq cong: map_cong)
    then have "fst (scanEntries env lc (map failingDirectoriesEmptied es) dirPath basePath) =
        fst (scanEntries env lc es dirPath basePath)"
      by (simp only: scanEntries_eq fst_conv)
    with True show ?thesis
      by (simp add: split_beta scanEntries_eq)
  qed
qed

lemma entryItems_failing:
  "entryItems env lc (FsDir d sub False) dirPath basePath =
     (if skippedName d then []
      else (case find (existsSync (FsDir d sub False)) pageFiles of
              None \<Rightarrow> []
            | Some pageFile \<Rightarrow>
                [NavigationItem
                   (titleOr (metaTitle (metadataOf env (pathJoin (pathJoin dirPath d) pageFile))) d)
                   (if basePath @ ''/'' @ d = ''/page'' then ''/'' else basePath @ ''/'' @ d)
                   None None (metaOrder (metadataOf env (pathJoin (pathJoin dirPath d) pageFile)))
                   None]))"
  by (simp add: entryItems_def isDirectory_def Let_def split: option.splits)

text \<open>
  Claim C8, as stated, fails. A failing directory that has a page file still gets its own
  childless item, built by the scan of its parent. Here \<open>app/grp/broken\<close> has a page file
  and cannot be listed: the scan yields \<open>/grp\<close> (with the child \<open>/grp/broken\<close>) and
  \<open>/guide\<close>. Without the failing subtree, \<open>grp\<close> is empty and the scan yields
  \<open>/guide\<close> alone.
\<close>

theorem scanDirectory_failing_subtree_counterexample:
  "scanDirectory sampleEnvironment codeUnitCompare
     (FsDir ''app'' [FsDir ''grp'' [brokenPageDir] True, guideDir] True) ''app'' '''' =
     ([NavigationItem ''Grp'' ''/grp''
         (Some [NavigationItem ''Broken'' ''/grp/broken'' None None None None]) None None None,
       NavigationItem ''Guide'' ''/guide'' None None None None],
      [''app/grp/broken'']) \<and>
   scanDirectory sampleEnvironment codeUnitCompare
     (FsDir ''app'' [FsDir ''grp'' [] True, guideDir] True) ''app'' '''' =
     ([NavigationItem ''Guide'' ''/guide'' None None None None], [])"
  by code_simp

text \<open>
  Claim C8, amended. When the listing of a directory fails, \<open>scanDirectory\<close> returns no
  items for it and logs its path; it raises nothing, and neither does the loop over a
  listing. In the parent, the items of the entries before and after the failing directory are
  what they are without it: the parent's result is the sorted list of the items before, the
  failing directory's own item, and the items after. That own item is a single childless item
  at the directory's route when the directory has a page file and its name is not skipped,
  and is missing otherwise. So without a page file the parent's items are those of the
  listing with the failing directory absent. The path of the failing directory is in the log
  unless its name is skipped. For a whole tree, the items are those of the tree in which
  every failing directory is kept with its files and has its sub-directories emptied.
\<close>

theorem scanDirectory_failing_subtree:
  "scanDirectory env lc (FsDir d sub False) dirPath basePath = ([], [dirPath]) \<and>
   (\<exists>items. fst (scanEntries env lc es dirPath basePath) = Inr items) \<and>
   (\<exists>before own after.
      fst (scanEntries env lc es1 dirPath basePath) = Inr before \<and>
      fst (scanEntries env lc es2 dirPath basePath) = Inr after \<and>
      fst (scanDirectory env lc (FsDir n (es1 @ es2) True) dirPath basePath) =
        sortNavigationItems lc (before @ after) \<and>
      fst (scanDirectory env lc (FsDir n (es1 @ FsDir d sub False # es2) True) dirPath basePath) =
        sortNavigationItems lc (before @ own @ after) \<and>
      (own = [] \<or> (\<exists>item. own = [item] \<and> children item = None)) \<and>
      (\<not> list_ex (existsSync (FsDir d sub False)) pageFiles \<longrightarrow> own = []) \<and>
      (skippedName d \<longrightarrow> own = []) \<and>
      (list_ex (existsSync (FsDir d sub False)) pageFiles \<and> \<not> skippedName d \<longrightarrow>
         (\<exists>item. own = [item] \<and> children item = None \<and>
            href item = (if basePath @ ''/'' @ d = ''/page'' then ''/'' else basePath @ ''/'' @ d)))) \<and>
   (\<not> list_ex (existsSync (FsDir d sub False)) pageFiles \<longrightarrow>
      fst (scanDirectory env lc (FsDir n (es1 @ FsDir d sub False # es2) True) dirPath basePath) =
      fst (scanDirectory env lc (FsDir n (es1 @ es2) True) dirPath basePath)) \<and>
   (\<not> skippedName d \<longrightarrow>
      pathJoin dirPath d \<in>
        set (snd (scanDirectory env lc (FsDir n (es1 @ FsDir d sub False # es2) True)
                    dirPath basePath))) \<and>
   fst (scanDirectory env lc (failingDirectoriesEmptied t) dirPath basePath) =
     fst (scanDirectory env lc t dirPath basePath)"
proof (intro conjI)
  show "scanDirectory env lc (FsDir d sub False) dirPath basePath = ([], [dirPath])"
    by (rule scanDirectory_unlistable)
  show "\<exists>items. fst (scanEntries env lc es dirPath basePath) = Inr items"
    by (simp add: scanEntries_eq)
  show "fst (scanDirectory env lc (failingDirectoriesEmptied t) dirPath basePath) =
     fst (scanDirectory env lc t dirPath basePath)"
    by (rule scanDirectory_failingDirectoriesEmptied)
  show "\<not> skippedName d \<longrightarrow>
      pathJoin dirPath d \<in>
        set (snd (scanDirectory env lc (FsDir n (es1 @ FsDir d sub False # es2) True)
                    dirPath basePath))"
    by (simp only: scanDirectory_listable) (simp add: entryLog_def isDirectory_def)
  let ?before = "concat (map (\<lambda>entry. entryItems env lc entry dirPath basePath) es1)"
  let ?after = "concat (map (\<lambda>entry. entryItems env lc entry dirPath basePath) es2)"
  let ?own = "entryItems env lc (FsDir d sub False) dirPath basePath"
  have 1: "fst (scanEntries env lc es1 dirPath basePath) = Inr ?before"
    and 2: "fst (scanEntries env lc es2 dirPath basePath) = Inr ?after"
    by (simp_all add: scanEntries_eq)
  have 3: "fst (scanDirectory env lc (FsDir n (es1 @ es2) True) dirPath basePath) =
        sortNavigationItems lc (?before @ ?after)"
    by (simp only: scanDirectory_listable) simp
  have 4: "fst (scanDirectory env lc (FsDir n (es1 @ FsDir d sub False # es2) True) dirPath basePath) =
        sortNavigationItems lc (?before @ ?own @ ?after)"
    by (simp only: scanDirectory_listable) simp
  have 5: "?own = [] \<or> (\<exists>item. ?own = [item] \<and> children item = None)"
    by (simp add: entryItems_failing split: option.splits)
  have 6: "\<not> list_ex (existsSync (FsDir d sub False)) pageFiles \<longrightarrow> ?own = []"
    by (simp add: entryItems_failing list_ex_find)
  have 7: "skippedName d \<longrightarrow> ?own = []"
    by (simp add: entryItems_failing)
  have 8: "list_ex (existsSync (FsDir d sub False)) pageFiles \<and> \<not> skippedName d \<longrightarrow>
         (\<exists>item. ?own = [item] \<and> children item = None \<and>
            href item = (if basePath @ ''/'' @ d = ''/page'' then ''/'' else basePath @ ''/'' @ d))"
    by (auto simp: entryItems_failing list_ex_find split: option.splits)
  from 1 2 3 4 5 6 7 8 show "\<exists>before own after.
      fst (scanEntries env lc es1 dirPath basePath) = Inr before \<and>
      fst (scanEntries env lc es2 dirPath basePath) = Inr after \<and>
      fst (scanDirectory env lc (FsDir n (es1 @ es2) True) dirPath basePath) =
        sortNavigationItems lc (before @ after) \<and>
      fst (scanDirectory env lc (FsDir n (es1 @ FsDir d sub False # es2) True) dirPath basePath) =
        sortNavigationItems lc (before @ own @ after) \<and>
      (own = [] \<or> (\<exists>item. own = [item] \<and> children item = None)) \<and>
      (\<not> list_ex (existsSync (FsDir d sub False)) pageFiles \<longrightarrow> own = []) \<and>
      (skippedName d \<longrightarrow> own = []) \<and>
      (list_ex (existsSync (FsDir d sub False)) pageFiles \<and> \<not> skippedName d \<longrightarrow>
         (\<exists>item. own = [item] \<and> children item = None \<and>
            href item = (if basePath @ ''/'' @ d = ''/page'' then ''/'' else basePath @ ''/'' @ d)))"
    by blast
  show "\<not> list_ex (existsSync (FsDir d sub False)) pageFiles \<longrightarrow>
      fst (scanDirectory env lc (FsDir n (es1 @ FsDir d sub False # es2) True) dirPath basePath) =
      fst (scanDirectory env lc (FsDir n (es1 @ es2) True) dirPath basePath)"
    using 3 4 6 by simp
qed

theorem scanDirectory_failing_subtree_witness:
  "\<not> list_ex (existsSync brokenDir) pageFiles \<and> \<not> skippedName ''broken'' \<and>
   scanDirectory sampleEnvironment codeUnitCompare brokenDir ''app/broken'' ''/broken'' =
     ([], [''app/broken'']) \<and>
   fst (scanDirectory sampleEnvironment codeUnitCompare (FsDir ''app'' [guideDir] True)
          ''app'' '''') =
     [NavigationItem ''Guide'' ''/guide'' None None None None] \<and>
   fst (scanDirectory sampleEnvironment codeUnitCompare (FsDir ''app'' [brokenDir, guideDir] True)
          ''app'' '''') =
     [NavigationItem ''Guide'' ''/guide'' None None None None] \<and>
   ''app/broken'' \<in>
     set (snd (scanDirectory sampleEnvironment codeUnitCompare
                 (FsDir ''app'' [brokenDir, guideDir] True) ''app'' '''')) \<and>
   list_ex (existsSync brokenPageDir) pageFiles \<and>
   scanDirectory sampleEnvironment codeUnitCompare
     (FsDir ''app'' [brokenPageDir, guideDir] True) ''app'' '''' =
     ([NavigationItem ''Broken'' ''/broken'' None None None None,
       NavigationItem ''Guide'' ''/guide'' None None None None], [''app/broken''])"
proof -
  have h3: "list_ex (existsSync brokenPageDir) pageFiles" by code_simp
  have v3: "scanDirectory sampleEnvironment codeUnitCompare
     (FsDir ''app'' [brokenPageDir, guideDir] True) ''app'' '''' =
     ([NavigationItem ''Broken'' ''/broken'' None None None None,
       NavigationItem ''Guide'' ''/guide'' None None None None], [''app/broken''])"
    by code_simp
  let ?sub = "[FsDir ''topic'' [FsFile ''page.tsx''] True]"
  note t = scanDirectory_failing_subtree [of sampleEnvironment codeUnitCompare "''broken''" ?sub
      "''app''" "''''" "[]" "[]" "[guideDir]" "''app''" "FsFile ''x''"]
  have h1: "\<not> list_ex (existsSync (FsDir ''broken'' ?sub False)) pageFiles" by code_simp
  have h2: "\<not> skippedName ''broken''" by code_simp
  have v: "fst (scanDirectory sampleEnvironment codeUnitCompare (FsDir ''app'' [guideDir] True)
          ''app'' '''') = [NavigationItem ''Guide'' ''/guide'' None None None None]"
    by code_simp
  have pj: "pathJoin ''app'' ''broken'' = ''app/broken''" by (simp add: pathJoin_def)
  from t obtain before own after where
    b: "fst (scanDirectory sampleEnvironment codeUnitCompare (FsDir ''app'' ([] @ [guideDir]) True)
          ''app'' '''') = sortNavigationItems codeUnitCompare (before @ after)"
    and w: "fst (scanDirectory sampleEnvironment codeUnitCompare
          (FsDir ''app'' ([] @ FsDir ''broken'' ?sub False # [guideDir]) True) ''app'' '''') =
        sortNavigationItems codeUnitCompare (before @ own @ after)"
    and o: "\<not> list_ex (existsSync (FsDir ''broken'' ?sub False)) pageFiles \<longrightarrow> own = []"
    by blast
  from o h1 have "own = []" by blast
  with b w v have 1: "fst (scanDirectory sampleEnvironment codeUnitCompare
          (FsDir ''app'' [brokenDir, guideDir] True) ''app'' '''') =
        [NavigationItem ''Guide'' ''/guide'' None None None None]"
    by (simp add: brokenDir_def)
  from t h2 have 2: "''app/broken'' \<in> set (snd (scanDirectory sampleEnvironment codeUnitCompare
                 (FsDir ''app'' [brokenDir, guideDir] True) ''app'' ''''))"
    by (simp only: pj brokenDir_def append_Nil) blast
  have 3: "scanDirectory sampleEnvironment codeUnitCompare brokenDir ''app/broken'' ''/broken'' =
     ([], [''app/broken''])"
    unfolding brokenDir_def
    by (rule scanDirectory_failing_subtree [THEN conjunct1])
  from h1 h2 v 1 2 3 h3 v3 show ?thesis by (simp only: brokenDir_def) blast
qed

end
